theory Spec2Isabelle
  imports Main "HOL-Library.Word"
begin

section \<open>Runtime failures\<close>

text \<open>
  A Go panic ends the call. Every function of the model that can panic returns
  \<open>panic + 'a\<close>, with \<open>Inl\<close> for the panic. A channel send that would block for ever
  in a sequential run is reported the same way.
\<close>

datatype panic =
    IndexOutOfRange
  | NilDereference
  | MakeChanSizeOutOfRange
  | BlocksForever

definition bindE :: "panic + 'a \<Rightarrow> ('a \<Rightarrow> panic + 'b) \<Rightarrow> panic + 'b" where
  "bindE m f = (case m of Inl e \<Rightarrow> Inl e | Inr x \<Rightarrow> f x)"

section \<open>Classification rules\<close>

text \<open>
  Modelled from the spec: the types \<open>common.L4ProtocolType\<close>, \<open>common.ExtnType\<close> and
  \<open>addr.IA\<close> are declared outside the files at hand. The spec gives an L4 protocol and
  the class and type of an extension as bytes, an ISD as a 16-bit and an AS as a 64-bit
  unsigned number; the conversions \<open>uint8(...)\<close>, \<open>uint16(...)\<close> and \<open>uint64(...)\<close> of the
  source agree. The fields \<open>I\<close> and \<open>A\<close> of an address are \<open>ia_I\<close> and \<open>ia_A\<close> here.

  A Go \<open>int\<close> (priorities, the \<open>extension\<close> of a protocol match) is an \<open>int\<close>: the code only
  compares such values and, for \<open>extension\<close>, converts them with \<open>uint8(...)\<close>, which keeps
  the low eight bits as \<open>word_of_int\<close> does.
\<close>

record ExtnType =
  Class :: "8 word"
  Type :: "8 word"

record ProtocolMatchType =
  baseProtocol :: "8 word"
  extension :: int

record IA =
  ia_I :: "16 word"
  ia_A :: "64 word"

text \<open>
  \<open>matchMode\<close> is an \<open>int\<close> with six named values; \<open>matchModeOfInt\<close> is the conversion
  \<open>matchMode(matchModeField)\<close> for these, and \<open>None\<close> for every other number (the
  default branch of each \<open>switch\<close> over a mode).
\<close>

datatype matchMode = EXACT | ISDONLY | ASONLY | RANGE | ANY | INTF

definition matchModeOfInt :: "int \<Rightarrow> matchMode option" where
  "matchModeOfInt n =
     (if n = 0 then Some EXACT else if n = 1 then Some ISDONLY else if n = 2 then Some ASONLY
      else if n = 3 then Some RANGE else if n = 4 then Some ANY else if n = 5 then Some INTF
      else None)"

record matchRule =
  IA :: IA
  lowLim :: IA
  upLim :: IA
  intf :: "64 word"
  matchMode :: matchMode

record InternalClassRule =
  Name :: string
  Priority :: int
  SourceAs :: matchRule
  DestinationAs :: matchRule
  L4Type :: "ProtocolMatchType list"
  QueueNumber :: int

definition zeroIA :: IA where
  "zeroIA = \<lparr>ia_I = 0, ia_A = 0\<rparr>"

definition zeroMatchRule :: matchRule where
  "zeroMatchRule = \<lparr>IA = zeroIA, lowLim = zeroIA, upLim = zeroIA, intf = 0, matchMode = EXACT\<rparr>"

text \<open>The rule behind the package variable \<open>emptyRule\<close>; the fields not named are zero.\<close>

definition emptyRule :: InternalClassRule where
  "emptyRule = \<lparr>Name = ''default'', Priority = 0, SourceAs = zeroMatchRule,
                 DestinationAs = zeroMatchRule, L4Type = [], QueueNumber = 0\<rparr>"

subsection \<open>Converting the rules of the configuration\<close>

text \<open>
  \<open>conf.ExternalClassRule\<close> is declared outside the files at hand; these are the
  fields that \<open>ConvClassRuleToInternal\<close> reads (the prefix \<open>ext\<close> keeps them apart from
  the fields of \<open>InternalClassRule\<close>).
\<close>

record ExternalL4Type =
  BaseProtocol :: int
  Extension :: int

record ExternalClassRule =
  extName :: string
  extPriority :: int
  extSourceAs :: string
  SourceMatchMode :: int
  extDestinationAs :: string
  DestinationMatchMode :: int
  extL4Type :: "ExternalL4Type list"
  extQueueNumber :: int

text \<open>
  Go error values: the error of a failed parse of the given text, and
  \<open>common.NewBasicError(msg, nil, key, value)\<close>.
\<close>

datatype error = ParseError string | BasicError string string int

text \<open>\<open>strings.Split(s, "||")\<close>: the pieces between the occurrences of the separator.\<close>

fun splitBars :: "string \<Rightarrow> string \<Rightarrow> string list" where
  "splitBars acc [] = [rev acc]"
| "splitBars acc [c] = [rev (c # acc)]"
| "splitBars acc (c # d # cs) =
     (if c = CHR ''|'' \<and> d = CHR ''|'' then rev acc # splitBars [] cs
      else splitBars (c # acc) (d # cs))"

text \<open>
  \<open>addr.IAFromString\<close> and \<open>strconv.ParseInt(s, 0, 64)\<close> are library functions and are
  parameters here: \<open>iaFromString s\<close> is the address or the error, \<open>parseInt s\<close> is the
  pair of the number and the error (\<open>None\<close> for \<open>nil\<close>) that \<open>ParseInt\<close> returns.
  The \<open>INTF\<close> branch keeps the number and drops the error.
\<close>

definition getMatchRuleTypeFromRule ::
  "(string \<Rightarrow> error + IA) \<Rightarrow> (string \<Rightarrow> int \<times> error option) \<Rightarrow> ExternalClassRule \<Rightarrow> int
     \<Rightarrow> string \<Rightarrow> error + matchRule" where
  "getMatchRuleTypeFromRule iaFromString parseInt cr matchModeField matchRuleField =
     (case matchModeOfInt matchModeField of
        None \<Rightarrow> Inl (BasicError ''Invalid matchMode declared'' ''matchMode'' matchModeField)
      | Some RANGE \<Rightarrow>
          (let parts = splitBars [] matchRuleField in
           if length parts \<noteq> 2 then Inl (BasicError ''Invalid Class'' ''raw'' matchModeField)
           else case iaFromString (parts ! 0) of
                  Inl err \<Rightarrow> Inl err
                | Inr low \<Rightarrow>
                    (case iaFromString (parts ! 1) of
                       Inl err \<Rightarrow> Inl err
                     | Inr up \<Rightarrow>
                         Inr \<lparr>IA = zeroIA, lowLim = low, upLim = up, intf = 0,
                              matchMode = RANGE\<rparr>))
      | Some INTF \<Rightarrow>
          Inr \<lparr>IA = zeroIA, lowLim = zeroIA, upLim = zeroIA,
               intf = word_of_int (fst (parseInt matchRuleField)), matchMode = INTF\<rparr>
      | Some m \<Rightarrow>
          (case iaFromString matchRuleField of
             Inl err \<Rightarrow> Inl err
           | Inr ia \<Rightarrow>
               Inr \<lparr>IA = ia, lowLim = zeroIA, upLim = zeroIA, intf = 0, matchMode = m\<rparr>))"

definition ConvClassRuleToInternal ::
  "(string \<Rightarrow> error + IA) \<Rightarrow> (string \<Rightarrow> int \<times> error option) \<Rightarrow> ExternalClassRule
     \<Rightarrow> error + InternalClassRule" where
  "ConvClassRuleToInternal iaFromString parseInt cr =
     (case getMatchRuleTypeFromRule iaFromString parseInt cr (SourceMatchMode cr) (extSourceAs cr) of
        Inl err \<Rightarrow> Inl err
      | Inr sourceMatch \<Rightarrow>
          (case getMatchRuleTypeFromRule iaFromString parseInt cr (DestinationMatchMode cr)
                  (extDestinationAs cr) of
             Inl err \<Rightarrow> Inl err
           | Inr destinationMatch \<Rightarrow>
               Inr \<lparr>Name = extName cr, Priority = extPriority cr, SourceAs = sourceMatch,
                    DestinationAs = destinationMatch,
                    L4Type = map (\<lambda>l4pt. \<lparr>baseProtocol = word_of_int (BaseProtocol l4pt),
                                            extension = Extension l4pt\<rparr>) (extL4Type cr),
                    QueueNumber = extQueueNumber cr\<rparr>))"

subsection \<open>Rule pointers\<close>

text \<open>
  A \<open>*InternalClassRule\<close> is \<open>nil\<close>, the pointer \<open>emptyRule\<close>, or \<open>&crs[k]\<close>, the address
  of the \<open>k\<close>-th element of the rule list given to \<open>RulesToMap\<close>. Pointers are compared
  by identity, so two equal rules at different positions are different pointers.
  Rules are never written after the index is built: the rule list is the store.
  \<open>RulesToMap\<close> makes no pointer beyond the list; following one is answered like
  following \<open>nil\<close>.
\<close>

datatype RulePtr = NilPtr | EmptyRulePtr | CrsPtr nat

definition deref :: "InternalClassRule list \<Rightarrow> RulePtr \<Rightarrow> panic + InternalClassRule" where
  "deref crs p =
     (case p of
        NilPtr \<Rightarrow> Inl NilDereference
      | EmptyRulePtr \<Rightarrow> Inr emptyRule
      | CrsPtr k \<Rightarrow> if k < length crs then Inr (crs ! k) else Inl NilDereference)"

text \<open>
  The index. A Go map from keys to slices is a function from keys to lists: reading a
  missing key gives the nil slice, which every loop below treats as the empty one.
\<close>

record MapRules =
  RulesList :: "InternalClassRule list"
  SourceRules :: "IA \<Rightarrow> RulePtr list"
  DestinationRules :: "IA \<Rightarrow> RulePtr list"
  SourceAnyDestinationRules :: "IA \<Rightarrow> RulePtr list"
  DestinationAnySourceRules :: "IA \<Rightarrow> RulePtr list"
  ASOnlySourceRules :: "64 word \<Rightarrow> RulePtr list"
  ASOnlyDestRules :: "64 word \<Rightarrow> RulePtr list"
  ISDOnlySourceRules :: "16 word \<Rightarrow> RulePtr list"
  ISDOnlyDestRules :: "16 word \<Rightarrow> RulePtr list"
  L4OnlyRules :: "RulePtr list"
  InterfaceIncomingRules :: "64 word \<Rightarrow> RulePtr list"

subsection \<open>Building the index: \<open>RulesToMap\<close>\<close>

text \<open>
  The two loops of a \<open>RANGE\<close> rule count with a \<open>uint64\<close> and a \<open>uint16\<close> variable, which
  wrap around: with an upper limit of all ones the condition \<open>j <= upLimA\<close> (or
  \<open>i <= upLimI\<close>) never fails and the loop does not end. Not returning is \<open>None\<close>.
\<close>

partial_function (option) rangeLoopA ::
  "RulePtr \<Rightarrow> 16 word \<Rightarrow> 64 word \<Rightarrow> 64 word \<Rightarrow> (IA \<Rightarrow> RulePtr list)
     \<Rightarrow> (IA \<Rightarrow> RulePtr list) option" where
  "rangeLoopA p i j upLimA m =
     (if j \<le> upLimA
      then rangeLoopA p i (j + 1) upLimA
             (m(\<lparr>ia_I = i, ia_A = j\<rparr> := m \<lparr>ia_I = i, ia_A = j\<rparr> @ [p]))
      else Some m)"

partial_function (option) rangeLoopI ::
  "RulePtr \<Rightarrow> 16 word \<Rightarrow> 16 word \<Rightarrow> 64 word \<Rightarrow> 64 word \<Rightarrow> (IA \<Rightarrow> RulePtr list)
     \<Rightarrow> (IA \<Rightarrow> RulePtr list) option" where
  "rangeLoopI p i upLimI lowLimA upLimA m =
     (if i \<le> upLimI
      then Option.bind (rangeLoopA p i lowLimA upLimA m)
             (rangeLoopI p (i + 1) upLimI lowLimA upLimA)
      else Some m)"

declare rangeLoopA.simps [code]
declare rangeLoopI.simps [code]

definition addRange :: "RulePtr \<Rightarrow> matchRule \<Rightarrow> (IA \<Rightarrow> RulePtr list) \<Rightarrow> (IA \<Rightarrow> RulePtr list) option" where
  "addRange p mr m =
     rangeLoopI p (ia_I (lowLim mr)) (ia_I (upLim mr)) (ia_A (lowLim mr)) (ia_A (upLim mr)) m"

text \<open>The first \<open>switch\<close> of the loop body, over \<open>cr.SourceAs.matchMode\<close>.\<close>

definition addSource :: "nat \<Rightarrow> InternalClassRule \<Rightarrow> MapRules \<Rightarrow> MapRules option" where
  "addSource k cr mp =
     (case matchMode (SourceAs cr) of
        EXACT \<Rightarrow>
          Some (mp\<lparr>SourceRules := (SourceRules mp)
                  (IA (SourceAs cr) := SourceRules mp (IA (SourceAs cr)) @ [CrsPtr k])\<rparr>)
      | RANGE \<Rightarrow>
          Option.bind (addRange (CrsPtr k) (SourceAs cr) (SourceRules mp))
            (\<lambda>m. Some (mp\<lparr>SourceRules := m\<rparr>))
      | ASONLY \<Rightarrow>
          Some (mp\<lparr>ASOnlySourceRules := (ASOnlySourceRules mp)
                  (ia_A (IA (SourceAs cr)) :=
                     ASOnlySourceRules mp (ia_A (IA (SourceAs cr))) @ [CrsPtr k])\<rparr>)
      | ISDONLY \<Rightarrow>
          Some (mp\<lparr>ISDOnlySourceRules := (ISDOnlySourceRules mp)
                  (ia_I (IA (SourceAs cr)) :=
                     ISDOnlySourceRules mp (ia_I (IA (SourceAs cr))) @ [CrsPtr k])\<rparr>)
      | ANY \<Rightarrow>
          if matchMode (DestinationAs cr) \<noteq> ANY
          then Some (mp\<lparr>DestinationAnySourceRules := (DestinationAnySourceRules mp)
                  (IA (DestinationAs cr) :=
                     DestinationAnySourceRules mp (IA (DestinationAs cr)) @ [CrsPtr k])\<rparr>)
          else Some (mp\<lparr>L4OnlyRules := L4OnlyRules mp @ [CrsPtr k]\<rparr>)
      | INTF \<Rightarrow>
          Some (mp\<lparr>InterfaceIncomingRules := (InterfaceIncomingRules mp)
                  (intf (SourceAs cr) :=
                     InterfaceIncomingRules mp (intf (SourceAs cr)) @ [CrsPtr k])\<rparr>))"

text \<open>The second \<open>switch\<close>, over \<open>cr.DestinationAs.matchMode\<close>.\<close>

definition addDestination :: "nat \<Rightarrow> InternalClassRule \<Rightarrow> MapRules \<Rightarrow> MapRules option" where
  "addDestination k cr mp =
     (case matchMode (DestinationAs cr) of
        EXACT \<Rightarrow>
          Some (mp\<lparr>DestinationRules := (DestinationRules mp)
                  (IA (DestinationAs cr) :=
                     DestinationRules mp (IA (DestinationAs cr)) @ [CrsPtr k])\<rparr>)
      | RANGE \<Rightarrow>
          Option.bind (addRange (CrsPtr k) (DestinationAs cr) (DestinationRules mp))
            (\<lambda>m. Some (mp\<lparr>DestinationRules := m\<rparr>))
      | ASONLY \<Rightarrow>
          Some (mp\<lparr>ASOnlyDestRules := (ASOnlyDestRules mp)
                  (ia_A (IA (DestinationAs cr)) :=
                     ASOnlyDestRules mp (ia_A (IA (DestinationAs cr))) @ [CrsPtr k])\<rparr>)
      | ISDONLY \<Rightarrow>
          Some (mp\<lparr>ISDOnlyDestRules := (ISDOnlyDestRules mp)
                  (ia_I (IA (DestinationAs cr)) :=
                     ISDOnlyDestRules mp (ia_I (IA (DestinationAs cr))) @ [CrsPtr k])\<rparr>)
      | ANY \<Rightarrow>
          if matchMode (SourceAs cr) \<noteq> ANY
          then Some (mp\<lparr>SourceAnyDestinationRules := (SourceAnyDestinationRules mp)
                  (IA (SourceAs cr) :=
                     SourceAnyDestinationRules mp (IA (SourceAs cr)) @ [CrsPtr k])\<rparr>)
          else Some mp
      | INTF \<Rightarrow> Some mp)"

text \<open>\<open>for k, cr := range crs\<close>, from position \<open>k\<close> on.\<close>

fun rulesLoop :: "nat \<Rightarrow> InternalClassRule list \<Rightarrow> MapRules \<Rightarrow> MapRules option" where
  "rulesLoop k [] mp = Some mp"
| "rulesLoop k (cr # crs) mp =
     Option.bind (addSource k cr mp)
       (\<lambda>mp1. Option.bind (addDestination k cr mp1) (rulesLoop (Suc k) crs))"

definition emptyMapRules :: "InternalClassRule list \<Rightarrow> MapRules" where
  "emptyMapRules crs =
     \<lparr>RulesList = crs,
      SourceRules = (\<lambda>a. []), DestinationRules = (\<lambda>a. []),
      SourceAnyDestinationRules = (\<lambda>a. []), DestinationAnySourceRules = (\<lambda>a. []),
      ASOnlySourceRules = (\<lambda>a. []), ASOnlyDestRules = (\<lambda>a. []),
      ISDOnlySourceRules = (\<lambda>a. []), ISDOnlyDestRules = (\<lambda>a. []),
      L4OnlyRules = [], InterfaceIncomingRules = (\<lambda>a. [])\<rparr>"

definition RulesToMap :: "InternalClassRule list \<Rightarrow> MapRules option" where
  "RulesToMap crs = rulesLoop 0 crs (emptyMapRules crs)"

subsection \<open>Packets, the classifier object and the cache\<close>

text \<open>
  What \<open>GetRuleForPacket\<close> reads of a router packet: the addresses given by \<open>SrcIA()\<close>
  and \<open>DstIA()\<close>, \<open>Ingress.IfID\<close>, \<open>L4Type\<close>, and the \<open>Type()\<close> of each hop-by-hop and
  end-to-end extension, in order.
\<close>

record RtrPkt =
  SrcIA :: IA
  DstIA :: IA
  IngressIfID :: "64 word"
  pktL4Type :: "8 word"
  HBHExt :: "ExtnType list"
  E2EExt :: "ExtnType list"

text \<open>
  \<open>RegularClassRule\<close> and \<open>CachelessClassRule\<close> have the same fields and the same \<open>Init\<close>;
  one record stands for both. \<open>Init\<close> is called with the number of rules, a length.
\<close>

record RegularClassRule =
  maskMatched :: "bool list"
  maskSad :: "bool list"
  maskDas :: "bool list"
  maskLf :: "bool list"
  maskIntf :: "bool list"
  extensions :: "ExtnType list"

definition Init :: "nat \<Rightarrow> RegularClassRule" where
  "Init noRules =
     \<lparr>maskMatched = replicate noRules False, maskSad = replicate noRules False,
      maskDas = replicate noRules False, maskLf = replicate noRules False,
      maskIntf = replicate noRules False,
      extensions = replicate 255 \<lparr>Class = 0, Type = 0\<rparr>\<rparr>"

record cacheEntry =
  srcAddress :: IA
  dstAddress :: IA
  l4type :: "8 word"
  entryIntf :: "64 word"

text \<open>The cache is the content of its \<open>sync.Map\<close>; \<open>Get\<close> answers \<open>nil\<close> for a missing key.\<close>

type_synonym ClassRuleCache = "cacheEntry \<Rightarrow> RulePtr option"

definition cacheInit :: ClassRuleCache where
  "cacheInit = (\<lambda>entry. None)"

definition cacheGet :: "ClassRuleCache \<Rightarrow> cacheEntry \<Rightarrow> RulePtr" where
  "cacheGet c entry = (case c entry of None \<Rightarrow> NilPtr | Some r \<Rightarrow> r)"

definition cachePut :: "ClassRuleCache \<Rightarrow> cacheEntry \<Rightarrow> RulePtr \<Rightarrow> ClassRuleCache" where
  "cachePut c entry rule = c(entry \<mapsto> rule)"

subsection \<open>Matching the L4 type and the extensions\<close>

text \<open>The loop over \<open>k\<close> of \<open>matchRuleL4ExtensionType\<close>, for one entry of \<open>rule.L4Type\<close>.\<close>

fun extensionLoop :: "ProtocolMatchType \<Rightarrow> ExtnType list \<Rightarrow> bool" where
  "extensionLoop pm [] = False"
| "extensionLoop pm (e # es) =
     (if (word_of_int (extension pm) :: 8 word) = Type e \<and> baseProtocol pm = Class e then True
      else extensionLoop pm es)"

text \<open>The loop over \<open>i\<close>.\<close>

fun l4ExtensionLoop :: "ProtocolMatchType list \<Rightarrow> ExtnType list \<Rightarrow> bool" where
  "l4ExtensionLoop [] exts = False"
| "l4ExtensionLoop (pm # pms) exts =
     (if extension pm = - 1 then True
      else if extensionLoop pm exts then True
      else l4ExtensionLoop pms exts)"

definition matchRuleL4ExtensionType :: "InternalClassRule \<Rightarrow> ExtnType list \<Rightarrow> bool" where
  "matchRuleL4ExtensionType rule exts = l4ExtensionLoop (L4Type rule) exts"

text \<open>
  The loop over \<open>j\<close> of \<open>matchL4Type\<close> for the rule \<open>(*list)[i]\<close>: whether \<open>mask[i]\<close> is set.
  The extension check is made on the whole rule, not on the entry \<open>j\<close>.
\<close>

fun l4TypeLoop :: "InternalClassRule \<Rightarrow> ProtocolMatchType list \<Rightarrow> 8 word \<Rightarrow> ExtnType list \<Rightarrow> bool" where
  "l4TypeLoop rule [] l4t exts = False"
| "l4TypeLoop rule (pm # pms) l4t exts =
     (if baseProtocol pm = l4t \<and> matchRuleL4ExtensionType rule exts then True
      else l4TypeLoop rule pms l4t exts)"

text \<open>
  The loop over \<open>i\<close>, from position \<open>i\<close> on, over the rest of the list. It stops at the
  first \<open>nil\<close>; writing \<open>mask[i]\<close> beyond the mask panics.
\<close>

fun matchL4TypeLoop ::
  "InternalClassRule list \<Rightarrow> nat \<Rightarrow> RulePtr list \<Rightarrow> 8 word \<Rightarrow> ExtnType list \<Rightarrow> bool list
     \<Rightarrow> panic + bool list" where
  "matchL4TypeLoop crs i [] l4t exts msk = Inr msk"
| "matchL4TypeLoop crs i (p # ps) l4t exts msk =
     (if p = NilPtr then Inr msk
      else bindE (deref crs p) (\<lambda>rule.
        if l4TypeLoop rule (L4Type rule) l4t exts
        then (if i < length msk
              then matchL4TypeLoop crs (Suc i) ps l4t exts (msk[i := True])
              else Inl IndexOutOfRange)
        else matchL4TypeLoop crs (Suc i) ps l4t exts msk))"

definition matchL4Type ::
  "InternalClassRule list \<Rightarrow> bool list \<Rightarrow> RulePtr list \<Rightarrow> 8 word \<Rightarrow> ExtnType list
     \<Rightarrow> panic + bool list" where
  "matchL4Type crs msk list l4t exts =
     matchL4TypeLoop crs 0 list l4t exts (replicate (length msk) False)"

subsection \<open>Choosing by priority\<close>

text \<open>
  The loop of \<open>getRuleWithPrevMax\<close> from position \<open>i\<close> on. Reading \<open>mask[i]\<close> beyond the
  mask panics; the first position whose mask is false ends the loop.
\<close>

fun prevMaxLoop ::
  "InternalClassRule list \<Rightarrow> nat \<Rightarrow> RulePtr list \<Rightarrow> bool list \<Rightarrow> RulePtr \<Rightarrow> int
     \<Rightarrow> panic + (int \<times> RulePtr)" where
  "prevMaxLoop crs i [] msk returnRule prevMax = Inr (prevMax, returnRule)"
| "prevMaxLoop crs i (p # ps) msk returnRule prevMax =
     (if \<not> i < length msk then Inl IndexOutOfRange
      else if msk ! i
      then bindE (deref crs p) (\<lambda>rule.
             if Priority rule > prevMax
             then prevMaxLoop crs (Suc i) ps msk p (Priority rule)
             else prevMaxLoop crs (Suc i) ps msk returnRule prevMax)
      else Inr (prevMax, returnRule))"

definition getRuleWithPrevMax ::
  "InternalClassRule list \<Rightarrow> RulePtr \<Rightarrow> bool list \<Rightarrow> RulePtr list \<Rightarrow> int
     \<Rightarrow> panic + (int \<times> RulePtr)" where
  "getRuleWithPrevMax crs returnRule msk list prevMax =
     prevMaxLoop crs 0 list msk returnRule prevMax"

subsection \<open>Intersecting the source and destination buckets\<close>

text \<open>
  \<open>intersectListsRules\<close> fills a slice of ten \<open>nil\<close>s from position \<open>k = 0\<close>. The loop over
  \<open>j\<close> for one \<open>a[l][i]\<close>, then the loop over \<open>i\<close> for one pair of buckets, then the pairs
  \<open>(l, m)\<close> in the order of the two outer loops. Writing \<open>matches[k]\<close> beyond the slice
  panics.
\<close>

fun intersectLoopJ ::
  "RulePtr \<Rightarrow> RulePtr list \<Rightarrow> RulePtr list \<times> nat \<Rightarrow> panic + (RulePtr list \<times> nat)" where
  "intersectLoopJ x [] (matches, k) = Inr (matches, k)"
| "intersectLoopJ x (y # ys) (matches, k) =
     (if x = y
      then (if k < length matches then intersectLoopJ x ys (matches[k := x], Suc k)
            else Inl IndexOutOfRange)
      else intersectLoopJ x ys (matches, k))"

fun intersectLoopI ::
  "RulePtr list \<Rightarrow> RulePtr list \<Rightarrow> RulePtr list \<times> nat \<Rightarrow> panic + (RulePtr list \<times> nat)" where
  "intersectLoopI [] bm s = Inr s"
| "intersectLoopI (x # xs) bm s = bindE (intersectLoopJ x bm s) (intersectLoopI xs bm)"

fun intersectLoopLM ::
  "(RulePtr list \<times> RulePtr list) list \<Rightarrow> RulePtr list \<times> nat \<Rightarrow> panic + (RulePtr list \<times> nat)" where
  "intersectLoopLM [] s = Inr s"
| "intersectLoopLM ((al, bm) # rest) s = bindE (intersectLoopI al bm s) (intersectLoopLM rest)"

definition intersectListsRules ::
  "RulePtr list \<times> RulePtr list \<times> RulePtr list \<Rightarrow> RulePtr list \<times> RulePtr list \<times> RulePtr list
     \<Rightarrow> panic + RulePtr list" where
  "intersectListsRules a b =
     (case a of (a0, a1, a2) \<Rightarrow> case b of (b0, b1, b2) \<Rightarrow>
        bindE (intersectLoopLM (List.product [a0, a1, a2] [b0, b1, b2]) (replicate 10 NilPtr, 0))
          (\<lambda>(matches, k). Inr matches))"

subsection \<open>\<open>GetRuleForPacket\<close>\<close>

text \<open>The two loops that append the packet's extension types to \<open>rc.extensions\<close>.\<close>

definition appendExtensions :: "RegularClassRule \<Rightarrow> RtrPkt \<Rightarrow> RegularClassRule" where
  "appendExtensions rc rp = rc\<lparr>extensions := extensions rc @ HBHExt rp @ E2EExt rp\<rparr>"

text \<open>
  The table lookups that follow \<open>returnRule = emptyRule\<close>, one field for each local
  variable they assign.
\<close>

record candidates =
  exactAndRangeSourceMatches :: "RulePtr list"
  exactAndRangeDestinationMatches :: "RulePtr list"
  sourceAnyDestinationMatches :: "RulePtr list"
  destinationAnySourceRules :: "RulePtr list"
  asOnlySourceRules :: "RulePtr list"
  asOnlyDestinationRules :: "RulePtr list"
  isdOnlySourceRules :: "RulePtr list"
  isdOnlyDestinationRules :: "RulePtr list"
  interfaceIncomingRules :: "RulePtr list"
  l4OnlyRules :: "RulePtr list"

definition lookupCandidates :: "MapRules \<Rightarrow> IA \<Rightarrow> IA \<Rightarrow> 64 word \<Rightarrow> candidates" where
  "lookupCandidates rules srcAddr dstAddr ifid =
     \<lparr>exactAndRangeSourceMatches = SourceRules rules srcAddr,
      exactAndRangeDestinationMatches = DestinationRules rules dstAddr,
      sourceAnyDestinationMatches = SourceAnyDestinationRules rules srcAddr,
      destinationAnySourceRules = DestinationAnySourceRules rules dstAddr,
      asOnlySourceRules = ASOnlySourceRules rules (ia_A srcAddr),
      asOnlyDestinationRules = ASOnlyDestRules rules (ia_A dstAddr),
      isdOnlySourceRules = ISDOnlySourceRules rules (ia_I srcAddr),
      isdOnlyDestinationRules = ISDOnlyDestRules rules (ia_I dstAddr),
      interfaceIncomingRules = InterfaceIncomingRules rules ifid,
      l4OnlyRules = L4OnlyRules rules\<rparr>"

text \<open>
  The five \<open>matchL4Type\<close> calls and the five \<open>getRuleWithPrevMax\<close> calls, in the order
  of the source, on the groups \<open>matched\<close>, \<open>sad\<close>, \<open>das\<close>, \<open>lf\<close> and \<open>intf\<close>. The masks
  are written in place, so the classifier object is returned with the rule.
\<close>

definition selectRule ::
  "InternalClassRule list \<Rightarrow> RegularClassRule \<Rightarrow> 8 word
     \<Rightarrow> RulePtr list \<Rightarrow> RulePtr list \<Rightarrow> RulePtr list \<Rightarrow> RulePtr list \<Rightarrow> RulePtr list
     \<Rightarrow> panic + (RulePtr \<times> RegularClassRule)" where
  "selectRule crs rc l4t matched sad das lf intfs =
     (let exts = extensions rc in
      bindE (matchL4Type crs (maskMatched rc) matched l4t exts) (\<lambda>mMatched.
      bindE (matchL4Type crs (maskSad rc) sad l4t exts) (\<lambda>mSad.
      bindE (matchL4Type crs (maskDas rc) das l4t exts) (\<lambda>mDas.
      bindE (matchL4Type crs (maskLf rc) lf l4t exts) (\<lambda>mLf.
      bindE (matchL4Type crs (maskIntf rc) intfs l4t exts) (\<lambda>mIntf.
      bindE (getRuleWithPrevMax crs EmptyRulePtr mMatched matched (- 1)) (\<lambda>(max1, r1).
      bindE (getRuleWithPrevMax crs r1 mSad sad max1) (\<lambda>(max2, r2).
      bindE (getRuleWithPrevMax crs r2 mDas das max2) (\<lambda>(max3, r3).
      bindE (getRuleWithPrevMax crs r3 mIntf intfs max3) (\<lambda>(max4, r4).
      bindE (getRuleWithPrevMax crs r4 mLf lf max4) (\<lambda>(max5, r5).
      Inr (r5, rc\<lparr>maskMatched := mMatched, maskSad := mSad, maskDas := mDas,
                   maskLf := mLf, maskIntf := mIntf\<rparr>))))))))))))"

text \<open>
  From \<open>returnRule = emptyRule\<close> to the last \<open>getRuleWithPrevMax\<close>: the lines that both
  classifiers share word for word.
\<close>

definition fullMatch ::
  "MapRules \<Rightarrow> RegularClassRule \<Rightarrow> IA \<Rightarrow> IA \<Rightarrow> 64 word \<Rightarrow> 8 word
     \<Rightarrow> panic + (RulePtr \<times> RegularClassRule)" where
  "fullMatch rules rc srcAddr dstAddr ifid l4t =
     (let c = lookupCandidates rules srcAddr dstAddr ifid;
          sources = (exactAndRangeSourceMatches c, asOnlySourceRules c, isdOnlySourceRules c);
          destinations = (exactAndRangeDestinationMatches c, asOnlyDestinationRules c,
                          isdOnlyDestinationRules c)
      in
      bindE (intersectListsRules sources destinations) (\<lambda>matched.
        selectRule (RulesList rules) rc l4t matched (sourceAnyDestinationMatches c)
          (destinationAnySourceRules c) (l4OnlyRules c) (interfaceIncomingRules c)))"

text \<open>\<open>CachelessClassRule.GetRuleForPacket\<close>.\<close>

definition CachelessGetRuleForPacket ::
  "MapRules \<Rightarrow> RegularClassRule \<Rightarrow> RtrPkt \<Rightarrow> panic + (RulePtr \<times> RegularClassRule)" where
  "CachelessGetRuleForPacket rules rc rp =
     fullMatch rules (appendExtensions rc rp) (SrcIA rp) (DstIA rp) (IngressIfID rp)
       (pktL4Type rp)"

text \<open>
  \<open>RegularClassRule.GetRuleForPacket\<close>. The cache \<open>config.Rules.CrCache\<close> is passed and
  returned beside the classifier object; \<open>entryOf rp\<close> is the key
  \<open>cacheEntry{srcAddress: srcAddr, dstAddress: dstAddr, intf: intf, l4type: l4t}\<close>.
\<close>

definition entryOf :: "RtrPkt \<Rightarrow> cacheEntry" where
  "entryOf rp = \<lparr>srcAddress = SrcIA rp, dstAddress = DstIA rp, l4type = pktL4Type rp,
                 entryIntf = IngressIfID rp\<rparr>"

definition GetRuleForPacket ::
  "MapRules \<Rightarrow> ClassRuleCache \<Rightarrow> RegularClassRule \<Rightarrow> RtrPkt
     \<Rightarrow> panic + (RulePtr \<times> RegularClassRule \<times> ClassRuleCache)" where
  "GetRuleForPacket rules cache rc rp =
     (let rc1 = appendExtensions rc rp;
          entry = entryOf rp;
          returnRule = cacheGet cache entry
      in
      bindE (if returnRule \<noteq> NilPtr
             then bindE (deref (RulesList rules) returnRule)
                    (\<lambda>rule. Inr (matchRuleL4ExtensionType rule (extensions rc1)))
             else Inr False) (\<lambda>hit.
      if hit then Inr (returnRule, rc1, cache)
      else bindE (fullMatch rules rc1 (SrcIA rp) (DstIA rp) (IngressIfID rp) (pktL4Type rp))
             (\<lambda>(r, rc2). Inr (r, rc2, cachePut cache entry r))))"

text \<open>One classifier object classifying a list of packets, one after the other.\<close>

fun classifyAll ::
  "MapRules \<Rightarrow> ClassRuleCache \<Rightarrow> RegularClassRule \<Rightarrow> RtrPkt list
     \<Rightarrow> panic + (RulePtr list \<times> RegularClassRule \<times> ClassRuleCache)" where
  "classifyAll rules cache rc [] = Inr ([], rc, cache)"
| "classifyAll rules cache rc (rp # rps) =
     bindE (GetRuleForPacket rules cache rc rp) (\<lambda>(r, rc1, cache1).
     bindE (classifyAll rules cache1 rc1 rps) (\<lambda>(rs, rc2, cache2).
     Inr (r # rs, rc2, cache2)))"

fun cachelessClassifyAll ::
  "MapRules \<Rightarrow> RegularClassRule \<Rightarrow> RtrPkt list \<Rightarrow> panic + (RulePtr list \<times> RegularClassRule)" where
  "cachelessClassifyAll rules rc [] = Inr ([], rc)"
| "cachelessClassifyAll rules rc (rp # rps) =
     bindE (CachelessGetRuleForPacket rules rc rp) (\<lambda>(r, rc1).
     bindE (cachelessClassifyAll rules rc1 rps) (\<lambda>(rs, rc2).
     Inr (r # rs, rc2)))"

section \<open>Queues (channelQueue.go and the ring-buffer queue)\<close>

text \<open>
  Modelled from the spec: the type \<open>conf.PoliceAction\<close> is declared outside the files
  at hand; the spec lists its members as PASS, DROP, DROPNOTIFY and MARK.
\<close>

datatype PoliceAction = PASS | DROP | DROPNOTIFY | MARK

text \<open>
  \<open>conf.ActionProfile\<close> and \<open>PacketQueue\<close> are declared outside the files at hand too;
  both queues use them through the fields \<open>FillLevel\<close>, \<open>Prob\<close>, \<open>Action\<close>, \<open>ID\<close>,
  \<open>MaxLength\<close> and \<open>Profile\<close>. All numbers are Go \<open>int\<close>s, numbers from \<open>-2^63\<close> up to
  \<open>2^63 - 1\<close>. They are only compared here, but for the sum \<open>MaxLength+1\<close> of
  \<open>InitQueue\<close>, which wraps around: \<open>int64 x\<close> is the \<open>int\<close> that Go computes where the exact
  result is \<open>x\<close>.
\<close>

definition int64 :: "int \<Rightarrow> int" where
  "int64 x = (x + 2 ^ 63) mod 2 ^ 64 - 2 ^ 63"

record ActionProfile =
  FillLevel :: int
  Prob :: int
  Action :: PoliceAction

record PacketQueue =
  ID :: int
  MaxLength :: int
  Profile :: "ActionProfile list"

text \<open>
  The profile scan shared by both \<open>CheckAction\<close> methods:
  \<open>for j := len(Profile) - 1; j >= 0; j--\<close>. It is run on the reversed profile.
  \<open>rand.Intn(100)\<close> is the sample \<open>rnd n\<close>, where \<open>n\<close> counts the samples drawn so far;
  the new count is returned with the action.
\<close>

fun scanProfile :: "int \<Rightarrow> (nat \<Rightarrow> int) \<Rightarrow> nat \<Rightarrow> ActionProfile list \<Rightarrow> PoliceAction \<times> nat" where
  "scanProfile level rnd n [] = (PASS, n)"
| "scanProfile level rnd n (p # ps) =
     (if level \<ge> FillLevel p
      then (if rnd n < Prob p then (Action p, Suc n) else scanProfile level rnd (Suc n) ps)
      else scanProfile level rnd n ps)"

subsection \<open>ChannelPacketQueue\<close>

text \<open>
  The channel is the list of the packets it buffers, oldest first, with its capacity.
  The token bucket and the PID controller play no part in the functions below.
\<close>

record 'p ChannelPacketQueue =
  pktQue :: PacketQueue
  queue :: "'p list"
  queueCap :: int

text \<open>
  \<open>make(chan *QPkt, MaxLength+1)\<close> panics on a negative size, and on a size above the
  greatest one that the runtime allocates for a channel of pointers, the parameter
  \<open>maxChan\<close>. At the greatest \<open>int\<close> the sum has wrapped around to a negative size.
\<close>

definition InitQueue :: "int \<Rightarrow> PacketQueue \<Rightarrow> panic + 'p ChannelPacketQueue" where
  "InitQueue maxChan que =
     (let size = int64 (MaxLength que + 1) in
      if size < 0 \<or> maxChan < size then Inl MakeChanSizeOutOfRange
      else Inr \<lparr>pktQue = que, queue = [], queueCap = size\<rparr>)"


definition GetLength :: "'p ChannelPacketQueue \<Rightarrow> int" where
  "GetLength pq = int (length (queue pq))"


text \<open>
  \<open>GetFillLevel\<close> is \<open>int(float64(len) / float64(MaxLength) * 100)\<close>. The floating-point
  computation is the parameter \<open>pct\<close>; nothing below depends on its values.
\<close>

definition GetFillLevel :: "(int \<Rightarrow> int \<Rightarrow> int) \<Rightarrow> 'p ChannelPacketQueue \<Rightarrow> int" where
  "GetFillLevel pct pq = pct (GetLength pq) (MaxLength (pktQue pq))"


definition CheckAction ::
  "(int \<Rightarrow> int \<Rightarrow> int) \<Rightarrow> (nat \<Rightarrow> int) \<Rightarrow> nat \<Rightarrow> 'p ChannelPacketQueue \<Rightarrow> PoliceAction \<times> nat" where
  "CheckAction pct rnd n pq =
     (if MaxLength (pktQue pq) \<le> GetLength pq then (DROPNOTIFY, n)
      else scanProfile (GetFillLevel pct pq) rnd n (rev (Profile (pktQue pq))))"

subsection \<open>PacketBufQueue\<close>

text \<open>
  The ring buffer is the list of the entries it holds; \<open>Readable()\<close> is its length.
\<close>

record 'p PacketBufQueue =
  bufPktQue :: PacketQueue
  bufQueue :: "'p list"

definition BufGetLength :: "'p PacketBufQueue \<Rightarrow> int" where
  "BufGetLength pq = int (length (bufQueue pq))"

definition BufGetFillLevel :: "(int \<Rightarrow> int \<Rightarrow> int) \<Rightarrow> 'p PacketBufQueue \<Rightarrow> int" where
  "BufGetFillLevel pct pq = pct (BufGetLength pq) (MaxLength (bufPktQue pq))"

definition BufCheckAction ::
  "(int \<Rightarrow> int \<Rightarrow> int) \<Rightarrow> (nat \<Rightarrow> int) \<Rightarrow> nat \<Rightarrow> 'p PacketBufQueue \<Rightarrow> PoliceAction \<times> nat" where
  "BufCheckAction pct rnd n pq =
     scanProfile (BufGetFillLevel pct pq) rnd n (rev (Profile (bufPktQue pq)))"

subsection \<open>Sequential use of a channel queue\<close>







section \<open>Notions used to state the properties\<close>

subsection \<open>L4 and extension matching\<close>


text \<open>
  What \<open>matchL4Type\<close> decides for one list entry: the rule a pointer leads to passes
  the loop over its L4 list. A pointer that cannot be followed passes nothing.
\<close>

definition survives ::
  "InternalClassRule list \<Rightarrow> 8 word \<Rightarrow> ExtnType list \<Rightarrow> RulePtr \<Rightarrow> bool" where
  "survives crs l4t exts p =
     (case deref crs p of
        Inl e \<Rightarrow> False
      | Inr rule \<Rightarrow> l4TypeLoop rule (L4Type rule) l4t exts)"

subsection \<open>The intersection\<close>

text \<open>
  The common rules of a source bucket and a destination bucket, in the order in which
  \<open>intersectListsRules\<close> meets them: each entry of the source bucket once for each
  equal entry of the destination bucket; then the same over the nine pairs of buckets.
  \<open>place k ws ms\<close> writes the list \<open>ws\<close> into \<open>ms\<close> from position \<open>k\<close> on, if it fits.
\<close>

definition commonOf :: "RulePtr list \<Rightarrow> RulePtr list \<Rightarrow> RulePtr list" where
  "commonOf al bm = concat (map (\<lambda>x. filter (\<lambda>y. x = y) bm) al)"

definition commonRules ::
  "RulePtr list \<times> RulePtr list \<times> RulePtr list \<Rightarrow> RulePtr list \<times> RulePtr list \<times> RulePtr list
     \<Rightarrow> RulePtr list" where
  "commonRules a b =
     (case a of (a0, a1, a2) \<Rightarrow> case b of (b0, b1, b2) \<Rightarrow>
        concat (map (\<lambda>(al, bm). commonOf al bm) (List.product [a0, a1, a2] [b0, b1, b2])))"

definition place :: "nat \<Rightarrow> RulePtr list \<Rightarrow> RulePtr list \<Rightarrow> panic + (RulePtr list \<times> nat)" where
  "place k ws ms =
     (if k + length ws \<le> length ms
      then Inr (take k ms @ ws @ drop (k + length ws) ms, k + length ws)
      else Inl IndexOutOfRange)"

subsection \<open>The index\<close>

text \<open>
  The tests under which the first and the second \<open>switch\<close> of \<open>RulesToMap\<close> append
  the rule at position \<open>j\<close> to \<open>destinationAnySourceRules[a]\<close> and to
  \<open>sourceAnyDestinationRules[a]\<close>.
\<close>

definition sourceAnyAt :: "IA \<Rightarrow> nat \<times> InternalClassRule \<Rightarrow> bool" where
  "sourceAnyAt a =
     (\<lambda>(j, cr). matchMode (SourceAs cr) = ANY \<and> matchMode (DestinationAs cr) \<noteq> ANY
        \<and> IA (DestinationAs cr) = a)"

definition destinationAnyAt :: "IA \<Rightarrow> nat \<times> InternalClassRule \<Rightarrow> bool" where
  "destinationAnyAt a =
     (\<lambda>(j, cr). matchMode (DestinationAs cr) = ANY \<and> matchMode (SourceAs cr) \<noteq> ANY
        \<and> IA (SourceAs cr) = a)"

text \<open>
  A match rule whose \<open>RANGE\<close> loops end: it is no \<open>RANGE\<close> rule, or neither upper
  limit is the greatest number of its type.
\<close>

definition rangeReturns :: "matchRule \<Rightarrow> bool" where
  "rangeReturns mr \<longleftrightarrow>
     matchMode mr \<noteq> RANGE \<or> (ia_I (upLim mr) \<noteq> - 1 \<and> ia_A (upLim mr) \<noteq> - 1)"

subsection \<open>The rule returned\<close>

text \<open>
  The rules that classification may hand out: the default rule, or a rule of the list
  whose priority is above \<open>-1\<close>. A cache is good when it holds such rules only.
\<close>

definition goodRule :: "InternalClassRule list \<Rightarrow> RulePtr \<Rightarrow> bool" where
  "goodRule crs r \<longleftrightarrow>
     r = EmptyRulePtr \<or> (\<exists>k. r = CrsPtr k \<and> k < length crs \<and> - 1 < Priority (crs ! k))"

definition cacheGood :: "InternalClassRule list \<Rightarrow> ClassRuleCache \<Rightarrow> bool" where
  "cacheGood crs cache \<longleftrightarrow>
     (\<forall>entry r. cache entry = Some r \<longrightarrow> r = NilPtr \<or> goodRule crs r)"

subsection \<open>The choice by priority\<close>

text \<open>
  The candidates of a group are its entries before the first \<open>nil\<close>; its survivors are
  the candidates that \<open>matchL4Type\<close> accepts; its leading survivors are the survivors
  that no candidate failing the check precedes. A group is contiguous when all its
  survivors are leading. \<open>prioOf\<close> is the priority of the rule behind a pointer. A
  group is readable with a mask when its candidates can be followed, and the mask is
  longer than the candidates or as long as the group.
\<close>

definition live :: "RulePtr list \<Rightarrow> RulePtr list" where
  "live g = takeWhile (\<lambda>p. p \<noteq> NilPtr) g"

definition survivors ::
  "InternalClassRule list \<Rightarrow> 8 word \<Rightarrow> ExtnType list \<Rightarrow> RulePtr list \<Rightarrow> RulePtr list" where
  "survivors crs l4t exts g = filter (survives crs l4t exts) (live g)"

definition leadingSurvivors ::
  "InternalClassRule list \<Rightarrow> 8 word \<Rightarrow> ExtnType list \<Rightarrow> RulePtr list \<Rightarrow> RulePtr list" where
  "leadingSurvivors crs l4t exts g = takeWhile (survives crs l4t exts) (live g)"

definition contiguous ::
  "InternalClassRule list \<Rightarrow> 8 word \<Rightarrow> ExtnType list \<Rightarrow> RulePtr list \<Rightarrow> bool" where
  "contiguous crs l4t exts g \<longleftrightarrow> survivors crs l4t exts g = leadingSurvivors crs l4t exts g"

definition prioOf :: "InternalClassRule list \<Rightarrow> RulePtr \<Rightarrow> int" where
  "prioOf crs p = (case deref crs p of Inl e \<Rightarrow> - 1 | Inr rule \<Rightarrow> Priority rule)"

definition validPtr :: "InternalClassRule list \<Rightarrow> RulePtr \<Rightarrow> bool" where
  "validPtr crs p = (case deref crs p of Inl e \<Rightarrow> False | Inr rule \<Rightarrow> True)"

definition readable :: "InternalClassRule list \<Rightarrow> bool list \<Rightarrow> RulePtr list \<Rightarrow> bool" where
  "readable crs msk g \<longleftrightarrow>
     list_all (validPtr crs) (live g)
     \<and> (length (live g) < length msk \<or> length g \<le> length msk)"

text \<open>
  The chain of \<open>getRuleWithPrevMax\<close> calls over a list of groups with their masks, and
  what a mask tells about the rest \<open>ps\<close> of a group that starts at position \<open>i\<close>.
\<close>

fun chooseAll ::
  "InternalClassRule list \<Rightarrow> RulePtr \<Rightarrow> int \<Rightarrow> (bool list \<times> RulePtr list) list
     \<Rightarrow> panic + (int \<times> RulePtr)" where
  "chooseAll crs ret m [] = Inr (m, ret)"
| "chooseAll crs ret m ((mk, g) # rest) =
     bindE (getRuleWithPrevMax crs ret mk g m) (\<lambda>(m', r'). chooseAll crs r' m' rest)"

definition maskTells ::
  "InternalClassRule list \<Rightarrow> 8 word \<Rightarrow> ExtnType list \<Rightarrow> bool list \<Rightarrow> nat \<Rightarrow> RulePtr list
     \<Rightarrow> bool" where
  "maskTells crs l4t exts msk i ps \<longleftrightarrow>
     (\<forall>j<length ps. i + j < length msk \<longrightarrow>
        msk ! (i + j) = (j < length (live ps) \<and> survives crs l4t exts (ps ! j)))"

subsection \<open>The cache\<close>




section \<open>Example rule sets and packets\<close>

text \<open>
  Two addresses, match rules for an exact address and for any address, a rule for TCP
  with any extension, and TCP and UDP packets without extensions; \<open>withExtension\<close>
  gives a packet the hop-by-hop extension of class 6 and type 5.
\<close>

definition iaS :: IA where
  "iaS = \<lparr>ia_I = 1, ia_A = 10\<rparr>"

definition iaD :: IA where
  "iaD = \<lparr>ia_I = 2, ia_A = 20\<rparr>"

definition exactRule :: "IA \<Rightarrow> matchRule" where
  "exactRule a = \<lparr>IA = a, lowLim = zeroIA, upLim = zeroIA, intf = 0, matchMode = EXACT\<rparr>"

definition anyRule :: matchRule where
  "anyRule = \<lparr>IA = zeroIA, lowLim = zeroIA, upLim = zeroIA, intf = 0, matchMode = ANY\<rparr>"

definition tcpRule :: "string \<Rightarrow> int \<Rightarrow> matchRule \<Rightarrow> matchRule \<Rightarrow> InternalClassRule" where
  "tcpRule n prio s d =
     \<lparr>Name = n, Priority = prio, SourceAs = s, DestinationAs = d,
      L4Type = [\<lparr>baseProtocol = 6, extension = - 1\<rparr>], QueueNumber = 1\<rparr>"

definition tcpPkt :: "IA \<Rightarrow> IA \<Rightarrow> RtrPkt" where
  "tcpPkt s d =
     \<lparr>SrcIA = s, DstIA = d, IngressIfID = 1, pktL4Type = 6, HBHExt = [], E2EExt = []\<rparr>"

definition udpPkt :: "IA \<Rightarrow> IA \<Rightarrow> RtrPkt" where
  "udpPkt s d =
     \<lparr>SrcIA = s, DstIA = d, IngressIfID = 1, pktL4Type = 17, HBHExt = [], E2EExt = []\<rparr>"

definition withExtension :: "RtrPkt \<Rightarrow> RtrPkt" where
  "withExtension rp = rp\<lparr>HBHExt := [\<lparr>Class = 6, Type = 5\<rparr>]\<rparr>"


text \<open>Eleven rules from the exact source \<open>iaS\<close> to the exact destination \<open>iaD\<close>.\<close>

definition elevenRules :: "InternalClassRule list" where
  "elevenRules = replicate 11 (tcpRule ''S to D'' 1 (exactRule iaS) (exactRule iaD))"

text \<open>Rules that leave the source or the destination open.\<close>

definition fromAnyToD :: "InternalClassRule list" where
  "fromAnyToD = [tcpRule ''ANY - Exact'' 1 anyRule (exactRule iaD)]"

definition twoAnyRules :: "InternalClassRule list" where
  "twoAnyRules = [tcpRule ''ANY - Exact'' 1 anyRule (exactRule iaD),
                  tcpRule ''Exact - ANY'' 2 (exactRule iaS) anyRule]"

text \<open>
  A single rule of negative priority for TCP between any two addresses, and a single
  rule that asks for the extension of class 6 and type 5.
\<close>

definition negativeOnly :: "InternalClassRule list" where
  "negativeOnly = [tcpRule ''negative'' (- 5) anyRule anyRule]"

definition needsExtension :: "InternalClassRule list" where
  "needsExtension =
     [\<lparr>Name = ''tcp with extension 5'', Priority = 1, SourceAs = anyRule,
       DestinationAs = anyRule, L4Type = [\<lparr>baseProtocol = 6, extension = 5\<rparr>],
       QueueNumber = 1\<rparr>]"



text \<open>
  Five TCP rules over four groups, and a TCP rule followed by a UDP rule of higher
  priority in the same group.
\<close>

definition fiveRules :: "InternalClassRule list" where
  "fiveRules =
     [tcpRule ''Exact - Exact'' 3 (exactRule iaS) (exactRule iaD),
      tcpRule ''ANY - Exact'' 7 anyRule (exactRule iaD),
      tcpRule ''Exact - ANY'' 5 (exactRule iaS) anyRule,
      tcpRule ''ANY - ANY'' 2 anyRule anyRule,
      tcpRule ''ANY - ANY, negative'' (- 3) anyRule anyRule]"

definition tcpThenUdp :: "InternalClassRule list" where
  "tcpThenUdp =
     [tcpRule ''tcp'' 1 anyRule anyRule,
      \<lparr>Name = ''udp'', Priority = 5, SourceAs = anyRule, DestinationAs = anyRule,
       L4Type = [\<lparr>baseProtocol = 17, extension = - 1\<rparr>], QueueNumber = 2\<rparr>]"



section \<open>Sequencing of calls that may panic\<close>

lemma bindE_InrE:
  assumes "bindE m f = Inr y"
  obtains x where "m = Inr x" and "f x = Inr y"
  using assms by (cases m) (auto simp: bindE_def)

lemma bindE_Inr [simp]:
  "bindE (Inr x) f = f x"
  by (simp add: bindE_def)

lemma bindE_Inl [simp]:
  "bindE (Inl e) f = Inl e"
  by (simp add: bindE_def)

section \<open>Properties of the queues\<close>

text \<open>
  C5. The two queue variants do not take the same admission decision: a full queue
  with an empty fill profile is refused with \<open>DROPNOTIFY\<close> by the channel queue, and
  admitted with \<open>PASS\<close> by the ring-buffer queue, whose \<open>CheckAction\<close> has no capacity
  check.
\<close>

theorem C5_CheckAction_variants_differ:
  "CheckAction pct rnd n \<lparr>pktQue = \<lparr>ID = 0, MaxLength = 1, Profile = []\<rparr>,
                           queue = [p], queueCap = 2\<rparr> = (DROPNOTIFY, n)
   \<and> BufCheckAction pct rnd n \<lparr>bufPktQue = \<lparr>ID = 0, MaxLength = 1, Profile = []\<rparr>,
                                bufQueue = [p]\<rparr> = (PASS, n)"
  by (simp add: CheckAction_def BufCheckAction_def GetLength_def)









text \<open>With the greatest \<open>int\<close> as \<open>MaxLength\<close> no queue is made.\<close>

lemma InitQueue_wraps:
  "InitQueue maxChan \<lparr>ID = 0, MaxLength = 2 ^ 63 - 1, Profile = []\<rparr> = Inl MakeChanSizeOutOfRange"
  by (simp add: InitQueue_def int64_def)

section \<open>Properties of the conversion of rules\<close>

text \<open>
  C7. A malformed \<open>Intf\<close> match field does not make the conversion fail: for match mode
  5 \<open>getMatchRuleTypeFromRule\<close> returns a rule whatever \<open>strconv.ParseInt\<close> answers,
  error included, and \<open>ConvClassRuleToInternal\<close> of an external rule whose two match
  fields are the text \<open>seven\<close> with mode 5 returns an internal rule, not an error.
\<close>

theorem C7_Intf_parse_error_dropped:
  "getMatchRuleTypeFromRule iaFromString parseInt cr 5 s
     = Inr \<lparr>IA = zeroIA, lowLim = zeroIA, upLim = zeroIA,
            intf = word_of_int (fst (parseInt s)), matchMode = INTF\<rparr>
   \<and> ConvClassRuleToInternal iaFromString (\<lambda>s. (0, Some (ParseError s)))
       \<lparr>extName = ''r'', extPriority = 1, extSourceAs = ''seven'', SourceMatchMode = 5,
        extDestinationAs = ''seven'', DestinationMatchMode = 5, extL4Type = [],
        extQueueNumber = 1\<rparr>
     = Inr \<lparr>Name = ''r'', Priority = 1,
            SourceAs = \<lparr>IA = zeroIA, lowLim = zeroIA, upLim = zeroIA, intf = 0,
                         matchMode = INTF\<rparr>,
            DestinationAs = \<lparr>IA = zeroIA, lowLim = zeroIA, upLim = zeroIA, intf = 0,
                              matchMode = INTF\<rparr>,
            L4Type = [], QueueNumber = 1\<rparr>"
  by (simp add: getMatchRuleTypeFromRule_def ConvClassRuleToInternal_def matchModeOfInt_def)

text \<open>
  The sibling branches do hand the parse error on: for the modes 0, 1, 2 and 4 a failed
  \<open>addr.IAFromString\<close> is the result of the conversion.
\<close>

lemma getMatchRuleTypeFromRule_IA_error:
  "m \<in> {0, 1, 2, 4} \<Longrightarrow> iaFromString s = Inl err \<Longrightarrow>
   getMatchRuleTypeFromRule iaFromString parseInt cr m s = Inl err"
  by (auto simp: getMatchRuleTypeFromRule_def matchModeOfInt_def)

section \<open>Properties of L4 and extension matching\<close>




lemma matchL4TypeLoop_length:
  "matchL4TypeLoop crs i ps l4t exts msk = Inr m \<Longrightarrow> length m = length msk"
proof (induction ps arbitrary: i msk)
  case Nil
  then show ?case by simp
next
  case (Cons p ps)
  show ?case
  proof (cases "p = NilPtr")
    case True
    with Cons.prems show ?thesis by simp
  next
    case False
    with Cons.prems obtain rule where d: "deref crs p = Inr rule"
      by (auto simp: bindE_def split: sum.splits)
    show ?thesis
    proof (cases "l4TypeLoop rule (L4Type rule) l4t exts")
      case True
      with Cons.prems False d have "i < length msk"
        and "matchL4TypeLoop crs (Suc i) ps l4t exts (msk[i := True]) = Inr m"
        by (auto simp: bindE_def split: if_splits)
      with Cons.IH [of "Suc i" "msk[i := True]"] show ?thesis by simp
    next
      case f: False
      with Cons.prems False d have "matchL4TypeLoop crs (Suc i) ps l4t exts msk = Inr m"
        by (simp add: bindE_def)
      with Cons.IH show ?thesis by simp
    qed
  qed
qed

text \<open>
  The mask after the loop: a position is set iff its entry lies before the first \<open>nil\<close>
  and survives; the other positions keep their value.
\<close>

lemma matchL4TypeLoop_nth:
  "matchL4TypeLoop crs i ps l4t exts msk = Inr m \<Longrightarrow> j < length msk \<Longrightarrow>
   m ! j = (if i \<le> j \<and> j - i < length (takeWhile (\<lambda>p. p \<noteq> NilPtr) ps)
               \<and> survives crs l4t exts (ps ! (j - i)) then True else msk ! j)"
proof (induction ps arbitrary: i msk)
  case Nil
  then show ?case by simp
next
  case (Cons p ps)
  show ?case
  proof (cases "p = NilPtr")
    case True
    with Cons.prems show ?thesis by simp
  next
    case False
    with Cons.prems obtain rule where d: "deref crs p = Inr rule"
      by (auto simp: bindE_def split: sum.splits)
    show ?thesis
    proof (cases "l4TypeLoop rule (L4Type rule) l4t exts")
      case True
      with Cons.prems False d have il: "i < length msk"
        and r: "matchL4TypeLoop crs (Suc i) ps l4t exts (msk[i := True]) = Inr m"
        by (auto simp: bindE_def split: if_splits)
      from Cons.IH [OF r] Cons.prems(2)
      have ih: "m ! j = (if Suc i \<le> j \<and> j - Suc i < length (takeWhile (\<lambda>p. p \<noteq> NilPtr) ps)
               \<and> survives crs l4t exts (ps ! (j - Suc i)) then True else (msk[i := True]) ! j)"
        by simp
      show ?thesis
      proof (cases "j = i")
        case True
        with ih il d \<open>l4TypeLoop rule (L4Type rule) l4t exts\<close> False show ?thesis
          by (simp add: survives_def)
      next
        case ne: False
        show ?thesis
        proof (cases "i < j")
          case True
          then obtain d' where "j = Suc i + d'" by (metis add_Suc less_iff_Suc_add)
          with ih False ne show ?thesis by simp
        next
          case False
          with ih ne show ?thesis by simp
        qed
      qed
    next
      case f: False
      with Cons.prems \<open>p \<noteq> NilPtr\<close> d have r: "matchL4TypeLoop crs (Suc i) ps l4t exts msk = Inr m"
        by (simp add: bindE_def)
      from Cons.IH [OF r] Cons.prems(2)
      have ih: "m ! j = (if Suc i \<le> j \<and> j - Suc i < length (takeWhile (\<lambda>p. p \<noteq> NilPtr) ps)
               \<and> survives crs l4t exts (ps ! (j - Suc i)) then True else msk ! j)"
        by simp
      show ?thesis
      proof (cases "j = i")
        case True
        with ih d f \<open>p \<noteq> NilPtr\<close> show ?thesis
          by (simp add: survives_def)
      next
        case ne: False
        show ?thesis
        proof (cases "i < j")
          case True
          then obtain d' where "j = Suc i + d'" by (metis add_Suc less_iff_Suc_add)
          with ih \<open>p \<noteq> NilPtr\<close> ne show ?thesis by simp
        next
          case False
          with ih ne show ?thesis by simp
        qed
      qed
    qed
  qed
qed







section \<open>Properties of the intersection\<close>

text \<open>
  What \<open>intersectListsRules\<close> returns: the common rules followed by \<open>nil\<close>s when there
  are at most ten of them, a panic otherwise. The common rules are the pointers that
  are in one of the three source buckets and in one of the three destination buckets.
\<close>

lemma place_Nil:
  "k \<le> length ms \<Longrightarrow> place k [] ms = Inr (ms, k)"
  by (simp add: place_def)

lemma place_Cons:
  "k \<le> length ms \<Longrightarrow>
   place k (x # ws) ms =
     (if k < length ms then place (Suc k) ws (ms[k := x]) else Inl IndexOutOfRange)"
  by (auto simp: place_def take_Suc_conv_app_nth)

lemma place_append:
  "k \<le> length ms \<Longrightarrow>
   place k (ws1 @ ws2) ms = bindE (place k ws1 ms) (\<lambda>(ms', k'). place k' ws2 ms')"
proof (induction ws1 arbitrary: k ms)
  case Nil
  then show ?case by (simp add: place_Nil)
next
  case (Cons x ws1)
  show ?case
  proof (cases "k < length ms")
    case True
    then have "Suc k \<le> length (ms[k := x])" by simp
    from Cons.IH [OF this] Cons.prems True show ?thesis
      by (simp add: place_Cons)
  next
    case False
    with Cons.prems show ?thesis by (simp add: place_Cons)
  qed
qed

lemma place_bounds:
  "place k ws ms = Inr (ms', k') \<Longrightarrow> k' \<le> length ms' \<and> length ms' = length ms"
  by (auto simp: place_def split: if_splits)

lemma intersectLoopJ_place:
  "k \<le> length ms \<Longrightarrow> intersectLoopJ x ys (ms, k) = place k (filter (\<lambda>y. x = y) ys) ms"
proof (induction ys arbitrary: ms k)
  case Nil
  then show ?case by (simp add: place_Nil)
next
  case (Cons y ys)
  show ?case
  proof (cases "x = y")
    case True
    show ?thesis
    proof (cases "k < length ms")
      case l: True
      then have "Suc k \<le> length (ms[k := x])" by simp
      from Cons.IH [OF this] Cons.prems True l show ?thesis
        by (simp add: place_Cons)
    next
      case False
      with Cons.prems True show ?thesis by (simp add: place_Cons)
    qed
  next
    case False
    with Cons.IH [OF Cons.prems] show ?thesis by simp
  qed
qed

lemma intersectLoopI_place:
  "k \<le> length ms \<Longrightarrow> intersectLoopI xs bm (ms, k) = place k (commonOf xs bm) ms"
proof (induction xs arbitrary: ms k)
  case Nil
  then show ?case by (simp add: place_Nil commonOf_def)
next
  case (Cons x xs)
  have c: "commonOf (x # xs) bm = filter (\<lambda>y. x = y) bm @ commonOf xs bm"
    by (simp add: commonOf_def)
  show ?case
  proof (cases "place k (filter (\<lambda>y. x = y) bm) ms")
    case (Inl e)
    with Cons.prems show ?thesis
      by (simp add: c place_append intersectLoopJ_place)
  next
    case (Inr s)
    obtain ms' k' where s: "s = (ms', k')" by (cases s)
    from place_bounds [OF Inr [unfolded s]] have "k' \<le> length ms'" by simp
    from Cons.IH [OF this] Cons.prems Inr s show ?thesis
      by (simp add: c place_append intersectLoopJ_place)
  qed
qed

lemma intersectLoopLM_place:
  "k \<le> length ms \<Longrightarrow>
   intersectLoopLM ps (ms, k) = place k (concat (map (\<lambda>(al, bm). commonOf al bm) ps)) ms"
proof (induction ps arbitrary: ms k)
  case Nil
  then show ?case by (simp add: place_Nil)
next
  case (Cons p ps)
  obtain al bm where p: "p = (al, bm)" by (cases p)
  show ?case
  proof (cases "place k (commonOf al bm) ms")
    case (Inl e)
    with Cons.prems p show ?thesis
      by (simp add: place_append intersectLoopI_place)
  next
    case (Inr s)
    obtain ms' k' where s: "s = (ms', k')" by (cases s)
    from place_bounds [OF Inr [unfolded s]] have "k' \<le> length ms'" by simp
    from Cons.IH [OF this] Cons.prems Inr s p show ?thesis
      by (simp add: place_append intersectLoopI_place)
  qed
qed

lemma intersectListsRules_eq:
  "intersectListsRules a b =
     (if length (commonRules a b) \<le> 10
      then Inr (commonRules a b @ replicate (10 - length (commonRules a b)) NilPtr)
      else Inl IndexOutOfRange)"
proof -
  obtain a0 a1 a2 b0 b1 b2 where ab: "a = (a0, a1, a2)" "b = (b0, b1, b2)"
    by (cases a, cases b) auto
  let ?ps = "List.product [a0, a1, a2] [b0, b1, b2]"
  have "intersectLoopLM ?ps (replicate 10 NilPtr, 0)
        = place 0 (concat (map (\<lambda>(al, bm). commonOf al bm) ?ps)) (replicate 10 NilPtr)"
    by (rule intersectLoopLM_place) simp
  then show ?thesis
    unfolding intersectListsRules_def commonRules_def ab
    by (simp add: place_def del: List.product.simps)
qed

lemma set_commonRules:
  "set (commonRules (a0, a1, a2) (b0, b1, b2))
     = (set a0 \<union> set a1 \<union> set a2) \<inter> (set b0 \<union> set b1 \<union> set b2)"
  by (auto simp: commonRules_def commonOf_def)

text \<open>
  C4. Eleven rules from the same exact source to the same exact destination: the
  index holds all eleven in \<open>sourceRules\<close> and in \<open>destinationRules\<close>, the eleventh
  common rule is written to \<open>matches[10]\<close> of a slice of ten, and \<open>intersectListsRules\<close>
  and with it both classifiers panic with an index out of range.
\<close>

theorem C4_eleven_matches_panic:
  "(case RulesToMap elevenRules of
      None \<Rightarrow> False
    | Some mp \<Rightarrow>
        SourceRules mp iaS = map CrsPtr [0..<11]
        \<and> DestinationRules mp iaD = map CrsPtr [0..<11]
        \<and> intersectListsRules (SourceRules mp iaS, ASOnlySourceRules mp (ia_A iaS), ISDOnlySourceRules mp (ia_I iaS))
             (DestinationRules mp iaD, ASOnlyDestRules mp (ia_A iaD), ISDOnlyDestRules mp (ia_I iaD))
           = Inl IndexOutOfRange
        \<and> CachelessGetRuleForPacket mp (Init 11) (tcpPkt iaS iaD) = Inl IndexOutOfRange
        \<and> map_sum id fst (GetRuleForPacket mp cacheInit (Init 11) (tcpPkt iaS iaD))
           = Inl IndexOutOfRange)"
  by code_simp

section \<open>Properties of the index\<close>

lemma addSource_DestinationAnySourceRules:
  "addSource k cr mp = Some mp' \<Longrightarrow>
   DestinationAnySourceRules mp' a =
     DestinationAnySourceRules mp a @ (if sourceAnyAt a (k, cr) then [CrsPtr k] else [])"
  by (cases "matchMode (SourceAs cr)")
     (auto simp: addSource_def sourceAnyAt_def split: Option.bind_splits if_splits)

lemma addSource_SourceAnyDestinationRules:
  "addSource k cr mp = Some mp' \<Longrightarrow> SourceAnyDestinationRules mp' = SourceAnyDestinationRules mp"
  by (cases "matchMode (SourceAs cr)")
     (auto simp: addSource_def split: Option.bind_splits if_splits)

lemma addDestination_DestinationAnySourceRules:
  "addDestination k cr mp = Some mp' \<Longrightarrow> DestinationAnySourceRules mp' = DestinationAnySourceRules mp"
  by (cases "matchMode (DestinationAs cr)")
     (auto simp: addDestination_def split: Option.bind_splits if_splits)

lemma addDestination_SourceAnyDestinationRules:
  "addDestination k cr mp = Some mp' \<Longrightarrow>
   SourceAnyDestinationRules mp' a =
     SourceAnyDestinationRules mp a @ (if destinationAnyAt a (k, cr) then [CrsPtr k] else [])"
  by (cases "matchMode (DestinationAs cr)")
     (auto simp: addDestination_def destinationAnyAt_def split: Option.bind_splits if_splits)

lemma rulesLoop_DestinationAnySourceRules:
  "rulesLoop k crs mp = Some mp' \<Longrightarrow>
   DestinationAnySourceRules mp' a =
     DestinationAnySourceRules mp a @ map (CrsPtr \<circ> fst) (filter (sourceAnyAt a) (enumerate k crs))"
proof (induction crs arbitrary: k mp)
  case Nil
  then show ?case by simp
next
  case (Cons cr crs)
  from Cons.prems obtain mp1 mp2 where s: "addSource k cr mp = Some mp1"
    and d: "addDestination k cr mp1 = Some mp2" and r: "rulesLoop (Suc k) crs mp2 = Some mp'"
    by (auto split: Option.bind_splits)
  from Cons.IH [OF r] addSource_DestinationAnySourceRules [OF s, of a]
    addDestination_DestinationAnySourceRules [OF d]
  show ?case by simp
qed

lemma rulesLoop_SourceAnyDestinationRules:
  "rulesLoop k crs mp = Some mp' \<Longrightarrow>
   SourceAnyDestinationRules mp' a =
     SourceAnyDestinationRules mp a @ map (CrsPtr \<circ> fst) (filter (destinationAnyAt a) (enumerate k crs))"
proof (induction crs arbitrary: k mp)
  case Nil
  then show ?case by simp
next
  case (Cons cr crs)
  from Cons.prems obtain mp1 mp2 where s: "addSource k cr mp = Some mp1"
    and d: "addDestination k cr mp1 = Some mp2" and r: "rulesLoop (Suc k) crs mp2 = Some mp'"
    by (auto split: Option.bind_splits)
  from Cons.IH [OF r] addSource_SourceAnyDestinationRules [OF s]
    addDestination_SourceAnyDestinationRules [OF d, of a]
  show ?case by simp
qed

lemma CrsPtr_in_filter_enumerate:
  "CrsPtr k \<in> set (map (CrsPtr \<circ> fst) (filter P (enumerate 0 crs)))
     \<longleftrightarrow> k < length crs \<and> P (k, crs ! k)"
  by (auto simp: in_set_enumerate_eq image_iff)

text \<open>
  The loops of a \<open>RANGE\<close> rule end when the upper limits are not all ones, and then
  \<open>RulesToMap\<close> returns.
\<close>

lemma word_succ_below_top:
  fixes j up :: "'a::len word"
  assumes "j \<le> up" and "up \<noteq> - 1"
  shows "unat (j + 1) = Suc (unat j)"
  using assms
  by (metis add.commute add.right_inverse add_left_cancel unatSuc word_order.extremum_uniqueI)

lemma rangeLoopA_total:
  "upLimA \<noteq> - 1 \<Longrightarrow> \<exists>m'. rangeLoopA p i j upLimA m = Some m'"
proof (induction n \<equiv> "Suc (unat upLimA) - unat j" arbitrary: j m)
  case 0
  then have "\<not> j \<le> upLimA" by (simp add: word_le_nat_alt)
  then show ?case by (subst rangeLoopA.simps) simp
next
  case (Suc n)
  show ?case
  proof (cases "j \<le> upLimA")
    case True
    from word_succ_below_top [OF True Suc.prems] Suc.hyps(2)
    have "n = Suc (unat upLimA) - unat (j + 1)" by simp
    from Suc.hyps(1) [OF this Suc.prems] True show ?thesis
      by (subst rangeLoopA.simps) simp
  next
    case False
    then show ?thesis by (subst rangeLoopA.simps) simp
  qed
qed

lemma rangeLoopI_total:
  "upLimI \<noteq> - 1 \<Longrightarrow> upLimA \<noteq> - 1 \<Longrightarrow>
   \<exists>m'. rangeLoopI p i upLimI lowLimA upLimA m = Some m'"
proof (induction n \<equiv> "Suc (unat upLimI) - unat i" arbitrary: i m)
  case 0
  then have "\<not> i \<le> upLimI" by (simp add: word_le_nat_alt)
  then show ?case by (subst rangeLoopI.simps) simp
next
  case (Suc n)
  show ?case
  proof (cases "i \<le> upLimI")
    case True
    from word_succ_below_top [OF True Suc.prems(1)] Suc.hyps(2)
    have n: "n = Suc (unat upLimI) - unat (i + 1)" by simp
    from rangeLoopA_total [OF Suc.prems(2)] obtain m1 where
      a: "rangeLoopA p i lowLimA upLimA m = Some m1" by blast
    from Suc.hyps(1) [OF n Suc.prems] a True show ?thesis
      by (subst rangeLoopI.simps) simp
  next
    case False
    then show ?thesis by (subst rangeLoopI.simps) simp
  qed
qed

lemma addSource_total:
  "rangeReturns (SourceAs cr) \<Longrightarrow> \<exists>mp'. addSource k cr mp = Some mp'"
  using rangeLoopI_total [of "ia_I (upLim (SourceAs cr))" "ia_A (upLim (SourceAs cr))"
      "CrsPtr k" "ia_I (lowLim (SourceAs cr))" "ia_A (lowLim (SourceAs cr))" "SourceRules mp"]
  by (cases "matchMode (SourceAs cr)") (auto simp: addSource_def addRange_def rangeReturns_def)

lemma addDestination_total:
  "rangeReturns (DestinationAs cr) \<Longrightarrow> \<exists>mp'. addDestination k cr mp = Some mp'"
  using rangeLoopI_total [of "ia_I (upLim (DestinationAs cr))" "ia_A (upLim (DestinationAs cr))"
      "CrsPtr k" "ia_I (lowLim (DestinationAs cr))" "ia_A (lowLim (DestinationAs cr))"
      "DestinationRules mp"]
  by (cases "matchMode (DestinationAs cr)")
     (auto simp: addDestination_def addRange_def rangeReturns_def)

lemma rulesLoop_total:
  "\<forall>cr\<in>set crs. rangeReturns (SourceAs cr) \<and> rangeReturns (DestinationAs cr) \<Longrightarrow>
   \<exists>mp'. rulesLoop k crs mp = Some mp'"
proof (induction crs arbitrary: k mp)
  case Nil
  show ?case by simp
next
  case (Cons cr crs)
  from Cons.prems have s: "rangeReturns (SourceAs cr)" and d: "rangeReturns (DestinationAs cr)"
    and rest: "\<forall>cr\<in>set crs. rangeReturns (SourceAs cr) \<and> rangeReturns (DestinationAs cr)"
    by simp_all
  from addSource_total [OF s] obtain mp1 where 1: "addSource k cr mp = Some mp1" by blast
  from addDestination_total [OF d] obtain mp2 where 2: "addDestination k cr mp1 = Some mp2"
    by blast
  from Cons.IH [OF rest, of "Suc k" mp2] 1 2 show ?case by simp
qed

lemma RulesToMap_total:
  "\<forall>cr\<in>set crs. rangeReturns (SourceAs cr) \<and> rangeReturns (DestinationAs cr) \<Longrightarrow>
   \<exists>mp. RulesToMap crs = Some mp"
  unfolding RulesToMap_def by (rule rulesLoop_total)

text \<open>
  C6, as the code has it. A rule with source mode \<open>ANY\<close> and another destination mode
  is filed in \<open>destinationAnySourceRules\<close> under the key \<open>r.destination.id\<close> and under
  no other key, and classification reads that table at the packet's destination
  address: the rule is in the group read for a packet exactly when the packet's
  destination is \<open>r.destination.id\<close>. Symmetrically, a rule with destination mode \<open>ANY\<close>
  and another source mode is filed in \<open>sourceAnyDestinationRules\<close> under
  \<open>r.source.id\<close>, and that table is read at the packet's source address.
  \<open>RulesToMap\<close> returns whenever no \<open>RANGE\<close> rule has an upper limit of all ones.
\<close>

theorem C6_any_rules_keyed_by_own_side:
  assumes "k < length crs"
  shows "(RulesToMap crs = Some mp \<longrightarrow>
           (matchMode (SourceAs (crs ! k)) = ANY \<and> matchMode (DestinationAs (crs ! k)) \<noteq> ANY \<longrightarrow>
              (\<forall>a. CrsPtr k \<in> set (DestinationAnySourceRules mp a)
                     \<longleftrightarrow> a = IA (DestinationAs (crs ! k)))
              \<and> (\<forall>src dst ifid.
                     CrsPtr k \<in> set (destinationAnySourceRules (lookupCandidates mp src dst ifid))
                     \<longleftrightarrow> dst = IA (DestinationAs (crs ! k))))
           \<and> (matchMode (DestinationAs (crs ! k)) = ANY \<and> matchMode (SourceAs (crs ! k)) \<noteq> ANY \<longrightarrow>
              (\<forall>a. CrsPtr k \<in> set (SourceAnyDestinationRules mp a)
                     \<longleftrightarrow> a = IA (SourceAs (crs ! k)))
              \<and> (\<forall>src dst ifid.
                     CrsPtr k \<in> set (sourceAnyDestinationMatches (lookupCandidates mp src dst ifid))
                     \<longleftrightarrow> src = IA (SourceAs (crs ! k))))
           \<and> (\<forall>src dst ifid.
                 destinationAnySourceRules (lookupCandidates mp src dst ifid)
                   = DestinationAnySourceRules mp dst
                 \<and> sourceAnyDestinationMatches (lookupCandidates mp src dst ifid)
                   = SourceAnyDestinationRules mp src))
         \<and> ((\<forall>cr\<in>set crs. rangeReturns (SourceAs cr) \<and> rangeReturns (DestinationAs cr)) \<longrightarrow>
              (\<exists>mp'. RulesToMap crs = Some mp'))"
    (is "(?built \<longrightarrow> ?keyed) \<and> ?returns")
proof -
  have ?keyed if built: ?built
  proof -
    from built have loop: "rulesLoop 0 crs (emptyMapRules crs) = Some mp"
      by (simp add: RulesToMap_def)
    have das: "DestinationAnySourceRules mp a
        = map (CrsPtr \<circ> fst) (filter (sourceAnyAt a) (enumerate 0 crs))" for a
      using rulesLoop_DestinationAnySourceRules [OF loop, of a] by (simp add: emptyMapRules_def)
    have sad: "SourceAnyDestinationRules mp a
        = map (CrsPtr \<circ> fst) (filter (destinationAnyAt a) (enumerate 0 crs))" for a
      using rulesLoop_SourceAnyDestinationRules [OF loop, of a] by (simp add: emptyMapRules_def)
    have 1: "CrsPtr k \<in> set (DestinationAnySourceRules mp a) \<longleftrightarrow> sourceAnyAt a (k, crs ! k)"
      for a
      using assms by (simp only: das CrsPtr_in_filter_enumerate) simp
    have 2: "CrsPtr k \<in> set (SourceAnyDestinationRules mp a) \<longleftrightarrow> destinationAnyAt a (k, crs ! k)"
      for a
      using assms by (simp only: sad CrsPtr_in_filter_enumerate) simp
    show ?thesis
      by (auto simp: 1 2 sourceAnyAt_def destinationAnyAt_def lookupCandidates_def)
  qed
  moreover have ?returns
    using RulesToMap_total [of crs] by blast
  ultimately show ?thesis by blast
qed

theorem C6_any_rules_keyed_by_own_side_witness:
  "\<exists>mp. RulesToMap twoAnyRules = Some mp \<and> 0 < length twoAnyRules \<and> 1 < length twoAnyRules
      \<and> list_all (\<lambda>cr. rangeReturns (SourceAs cr) \<and> rangeReturns (DestinationAs cr)) twoAnyRules
      \<and> matchMode (SourceAs (twoAnyRules ! 0)) = ANY
      \<and> matchMode (DestinationAs (twoAnyRules ! 0)) \<noteq> ANY
      \<and> matchMode (DestinationAs (twoAnyRules ! 1)) = ANY
      \<and> matchMode (SourceAs (twoAnyRules ! 1)) \<noteq> ANY
      \<and> CrsPtr 0 \<in> set (DestinationAnySourceRules mp iaD)
      \<and> CrsPtr 0 \<in> set (destinationAnySourceRules (lookupCandidates mp iaS iaD 1))
      \<and> CrsPtr 1 \<in> set (SourceAnyDestinationRules mp iaS)
      \<and> CrsPtr 1 \<in> set (sourceAnyDestinationMatches (lookupCandidates mp iaS iaD 1))"
proof -
  have f: "0 < length twoAnyRules" "1 < length twoAnyRules"
    "matchMode (SourceAs (twoAnyRules ! 0)) = ANY"
    "matchMode (DestinationAs (twoAnyRules ! 0)) \<noteq> ANY"
    "matchMode (DestinationAs (twoAnyRules ! 1)) = ANY"
    "matchMode (SourceAs (twoAnyRules ! 1)) \<noteq> ANY"
    "IA (DestinationAs (twoAnyRules ! 0)) = iaD"
    "IA (SourceAs (twoAnyRules ! 1)) = iaS"
    by (simp_all add: twoAnyRules_def tcpRule_def anyRule_def exactRule_def)
  have r: "list_all (\<lambda>cr. rangeReturns (SourceAs cr) \<and> rangeReturns (DestinationAs cr)) twoAnyRules"
    by (simp add: twoAnyRules_def tcpRule_def anyRule_def exactRule_def rangeReturns_def)
  then have "\<forall>cr\<in>set twoAnyRules. rangeReturns (SourceAs cr) \<and> rangeReturns (DestinationAs cr)"
    by (simp add: list_all_iff)
  with C6_any_rules_keyed_by_own_side [OF f(1)] obtain mp where
    m: "RulesToMap twoAnyRules = Some mp" by blast
  from C6_any_rules_keyed_by_own_side [OF f(1), of mp] C6_any_rules_keyed_by_own_side [OF f(2), of mp]
    m f r
  show ?thesis by simp
qed

text \<open>
  C6, as the specification has it, fails: with the one rule from any source to the
  exact destination \<open>iaD\<close>, the group read for a packet from \<open>iaS\<close> to \<open>iaD\<close> holds the
  rule, while \<open>destinationAnySourceRules\<close> at the packet's source \<open>iaS\<close> is empty; the
  packet is given the rule, and a packet from \<open>iaD\<close> to \<open>iaS\<close> is not.
\<close>

theorem C6_read_by_source_counterexample:
  "(case RulesToMap fromAnyToD of
      None \<Rightarrow> False
    | Some mp \<Rightarrow>
        destinationAnySourceRules (lookupCandidates mp iaS iaD 1) = [CrsPtr 0]
        \<and> DestinationAnySourceRules mp iaS = []
        \<and> map_sum id fst (CachelessGetRuleForPacket mp (Init 1) (tcpPkt iaS iaD)) = Inr (CrsPtr 0)
        \<and> map_sum id fst (CachelessGetRuleForPacket mp (Init 1) (tcpPkt iaD iaS)) = Inr EmptyRulePtr)"
  by code_simp

section \<open>Properties of rule selection\<close>

lemma selectRule_InrD:
  assumes "selectRule crs rc l4t matched sad das lf intfs = Inr (r, rc')"
  shows "\<exists>mMatched mSad mDas mLf mIntf max1 r1 max2 r2 max3 r3 max4 r4 max5.
           matchL4Type crs (maskMatched rc) matched l4t (extensions rc) = Inr mMatched
         \<and> matchL4Type crs (maskSad rc) sad l4t (extensions rc) = Inr mSad
         \<and> matchL4Type crs (maskDas rc) das l4t (extensions rc) = Inr mDas
         \<and> matchL4Type crs (maskLf rc) lf l4t (extensions rc) = Inr mLf
         \<and> matchL4Type crs (maskIntf rc) intfs l4t (extensions rc) = Inr mIntf
         \<and> getRuleWithPrevMax crs EmptyRulePtr mMatched matched (- 1) = Inr (max1, r1)
         \<and> getRuleWithPrevMax crs r1 mSad sad max1 = Inr (max2, r2)
         \<and> getRuleWithPrevMax crs r2 mDas das max2 = Inr (max3, r3)
         \<and> getRuleWithPrevMax crs r3 mIntf intfs max3 = Inr (max4, r4)
         \<and> getRuleWithPrevMax crs r4 mLf lf max4 = Inr (max5, r)
         \<and> rc' = rc\<lparr>maskMatched := mMatched, maskSad := mSad, maskDas := mDas,
                      maskLf := mLf, maskIntf := mIntf\<rparr>"
  using assms unfolding selectRule_def Let_def
  by (auto elim!: bindE_InrE split: prod.splits)

lemma deref_above_goodRule:
  "deref crs p = Inr rule \<Longrightarrow> - 1 \<le> m \<Longrightarrow> m < Priority rule \<Longrightarrow> goodRule crs p"
  by (cases p) (auto simp: deref_def goodRule_def split: if_splits)

lemma prevMaxLoop_goodRule:
  "prevMaxLoop crs i ps msk ret m = Inr (m', r') \<Longrightarrow> - 1 \<le> m \<Longrightarrow> goodRule crs ret \<Longrightarrow>
   - 1 \<le> m' \<and> goodRule crs r'"
proof (induction ps arbitrary: i ret m)
  case Nil
  then show ?case by simp
next
  case (Cons p ps)
  from Cons.prems(1) have il: "i < length msk" by (auto split: if_splits)
  show ?case
  proof (cases "msk ! i")
    case False
    with Cons.prems il show ?thesis by simp
  next
    case True
    with Cons.prems(1) il obtain rule where d: "deref crs p = Inr rule"
      by (auto elim!: bindE_InrE)
    show ?thesis
    proof (cases "m < Priority rule")
      case True
      with Cons.prems(1) il \<open>msk ! i\<close> d
      have r: "prevMaxLoop crs (Suc i) ps msk p (Priority rule) = Inr (m', r')" by simp
      from True Cons.prems(2) have "- 1 \<le> Priority rule" by simp
      from Cons.IH [OF r this deref_above_goodRule [OF d Cons.prems(2) True]] show ?thesis .
    next
      case False
      with Cons.prems(1) il \<open>msk ! i\<close> d
      have r: "prevMaxLoop crs (Suc i) ps msk ret m = Inr (m', r')" by simp
      from Cons.IH [OF r Cons.prems(2,3)] show ?thesis .
    qed
  qed
qed

lemma getRuleWithPrevMax_goodRule:
  "getRuleWithPrevMax crs ret msk list m = Inr (m', r') \<Longrightarrow> - 1 \<le> m \<Longrightarrow> goodRule crs ret \<Longrightarrow>
   - 1 \<le> m' \<and> goodRule crs r'"
  unfolding getRuleWithPrevMax_def by (rule prevMaxLoop_goodRule)

lemma selectRule_goodRule:
  assumes "selectRule crs rc l4t matched sad das lf intfs = Inr (r, rc')"
  shows "goodRule crs r"
proof -
  from selectRule_InrD [OF assms] obtain mMatched mSad mDas mLf mIntf max1 r1 max2 r2 max3 r3 max4 r4 max5
    where g1: "getRuleWithPrevMax crs EmptyRulePtr mMatched matched (- 1) = Inr (max1, r1)"
      and g2: "getRuleWithPrevMax crs r1 mSad sad max1 = Inr (max2, r2)"
      and g3: "getRuleWithPrevMax crs r2 mDas das max2 = Inr (max3, r3)"
      and g4: "getRuleWithPrevMax crs r3 mIntf intfs max3 = Inr (max4, r4)"
      and g5: "getRuleWithPrevMax crs r4 mLf lf max4 = Inr (max5, r)"
    by blast
  have e: "goodRule crs EmptyRulePtr" by (simp add: goodRule_def)
  from getRuleWithPrevMax_goodRule [OF g1 _ e] have 1: "- 1 \<le> max1" "goodRule crs r1" by simp_all
  from getRuleWithPrevMax_goodRule [OF g2 1] have 2: "- 1 \<le> max2" "goodRule crs r2" by simp_all
  from getRuleWithPrevMax_goodRule [OF g3 2] have 3: "- 1 \<le> max3" "goodRule crs r3" by simp_all
  from getRuleWithPrevMax_goodRule [OF g4 3] have 4: "- 1 \<le> max4" "goodRule crs r4" by simp_all
  from getRuleWithPrevMax_goodRule [OF g5 4] show ?thesis by simp
qed

lemma fullMatch_goodRule:
  "fullMatch rules rc srcAddr dstAddr ifid l4t = Inr (r, rc') \<Longrightarrow> goodRule (RulesList rules) r"
  unfolding fullMatch_def Let_def
  by (auto elim!: bindE_InrE dest: selectRule_goodRule)

lemma CachelessGetRuleForPacket_goodRule:
  "CachelessGetRuleForPacket rules rc rp = Inr (r, rc') \<Longrightarrow> goodRule (RulesList rules) r"
  unfolding CachelessGetRuleForPacket_def by (rule fullMatch_goodRule)

lemma GetRuleForPacket_cases:
  assumes "GetRuleForPacket rules cache rc rp = Inr (r, rc', cache')"
  obtains
    (hit) rule where "r = cacheGet cache (entryOf rp)" and "r \<noteq> NilPtr"
      and "deref (RulesList rules) r = Inr rule"
      and "matchRuleL4ExtensionType rule (extensions (appendExtensions rc rp))"
      and "rc' = appendExtensions rc rp" and "cache' = cache"
  | (miss) "fullMatch rules (appendExtensions rc rp) (SrcIA rp) (DstIA rp) (IngressIfID rp)
              (pktL4Type rp) = Inr (r, rc')"
      and "cache' = cachePut cache (entryOf rp) r"
proof -
  let ?rc1 = "appendExtensions rc rp"
  let ?ret = "cacheGet cache (entryOf rp)"
  from assms obtain h where
    h: "(if ?ret \<noteq> NilPtr
         then bindE (deref (RulesList rules) ?ret)
                (\<lambda>rule. Inr (matchRuleL4ExtensionType rule (extensions ?rc1)))
         else Inr False) = Inr h"
    and k: "(if h then Inr (?ret, ?rc1, cache)
             else bindE (fullMatch rules ?rc1 (SrcIA rp) (DstIA rp) (IngressIfID rp) (pktL4Type rp))
                    (\<lambda>(r, rc2). Inr (r, rc2, cachePut cache (entryOf rp) r))) = Inr (r, rc', cache')"
    unfolding GetRuleForPacket_def Let_def by (erule bindE_InrE)
  show thesis
  proof (cases h)
    case True
    with h obtain rule where "?ret \<noteq> NilPtr" and "deref (RulesList rules) ?ret = Inr rule"
      and "matchRuleL4ExtensionType rule (extensions ?rc1)"
      by (auto elim!: bindE_InrE split: if_splits)
    moreover from k True have "r = ?ret" and "rc' = ?rc1" and "cache' = cache" by auto
    ultimately show thesis using hit by blast
  next
    case False
    with k have "fullMatch rules ?rc1 (SrcIA rp) (DstIA rp) (IngressIfID rp) (pktL4Type rp) = Inr (r, rc')"
      and "cache' = cachePut cache (entryOf rp) r"
      by (auto elim!: bindE_InrE)
    then show thesis using miss by blast
  qed
qed

lemma GetRuleForPacket_goodRule:
  assumes "GetRuleForPacket rules cache rc rp = Inr (r, rc', cache')"
    and "cacheGood (RulesList rules) cache"
  shows "goodRule (RulesList rules) r \<and> cacheGood (RulesList rules) cache'"
  using assms(1)
proof (cases rule: GetRuleForPacket_cases)
  case (hit rule)
  with assms(2) show ?thesis
    by (auto simp: cacheGet_def cacheGood_def split: option.splits)
next
  case miss
  from fullMatch_goodRule [OF miss(1)] have "goodRule (RulesList rules) r" .
  with assms(2) miss(2) show ?thesis
    by (auto simp: cacheGood_def cachePut_def)
qed

lemma classifyAll_goodRule:
  "classifyAll rules cache rc ps = Inr (rs, rc', cache') \<Longrightarrow> cacheGood (RulesList rules) cache \<Longrightarrow>
   (\<forall>r\<in>set rs. goodRule (RulesList rules) r) \<and> cacheGood (RulesList rules) cache'"
proof (induction ps arbitrary: cache rc rs)
  case Nil
  then show ?case by simp
next
  case (Cons rp rps)
  from Cons.prems(1) obtain r rc1 cache1 rs1 where
    g: "GetRuleForPacket rules cache rc rp = Inr (r, rc1, cache1)"
    and a: "classifyAll rules cache1 rc1 rps = Inr (rs1, rc', cache')" and rs: "rs = r # rs1"
    by (auto elim!: bindE_InrE)
  from GetRuleForPacket_goodRule [OF g Cons.prems(2)]
  have 1: "goodRule (RulesList rules) r" "cacheGood (RulesList rules) cache1" by simp_all
  from Cons.IH [OF a 1(2)] 1(1) rs show ?case by simp
qed

lemma cachelessClassifyAll_goodRule:
  "cachelessClassifyAll rules rc ps = Inr (rs, rc') \<Longrightarrow> \<forall>r\<in>set rs. goodRule (RulesList rules) r"
proof (induction ps arbitrary: rc rs)
  case Nil
  then show ?case by simp
next
  case (Cons rp rps)
  from Cons.prems(1) obtain r rc1 rs1 where
    g: "CachelessGetRuleForPacket rules rc rp = Inr (r, rc1)"
    and a: "cachelessClassifyAll rules rc1 rps = Inr (rs1, rc')" and rs: "rs = r # rs1"
    by (auto elim!: bindE_InrE)
  from Cons.IH [OF a] CachelessGetRuleForPacket_goodRule [OF g] rs show ?case by simp
qed

lemma cacheGood_cacheInit: "cacheGood crs cacheInit"
  by (simp add: cacheGood_def cacheInit_def)

text \<open>
  C9. Every rule that a classifier returns, with the cache (started empty) or without
  it, over any list of packets and any index, is the default rule or a rule of the
  list with priority above \<open>-1\<close>: a rule of negative priority is never returned.
\<close>

theorem C9_no_negative_priority_rule_returned:
  "(classifyAll rules cacheInit rc ps = Inr (rs, rc', cache') \<longrightarrow>
      (\<forall>r\<in>set rs. r = EmptyRulePtr
          \<or> (\<exists>k. r = CrsPtr k \<and> k < length (RulesList rules) \<and> - 1 < Priority (RulesList rules ! k))))
   \<and> (cachelessClassifyAll rules rc ps = Inr (rs, rc') \<longrightarrow>
      (\<forall>r\<in>set rs. r = EmptyRulePtr
          \<or> (\<exists>k. r = CrsPtr k \<and> k < length (RulesList rules) \<and> - 1 < Priority (RulesList rules ! k))))"
  using classifyAll_goodRule [OF _ cacheGood_cacheInit, of rules rc ps rs rc' cache']
    cachelessClassifyAll_goodRule [of rules rc ps rs rc']
  by (simp add: goodRule_def)

text \<open>
  The single rule of \<open>negativeOnly\<close> has priority \<open>-5\<close> and accepts the TCP packet; both
  classifiers return the default rule for it.
\<close>

theorem C9_no_negative_priority_rule_returned_witness:
  "\<exists>mp rc' cache' rc2.
      RulesToMap negativeOnly = Some mp
      \<and> L4OnlyRules mp = [CrsPtr 0]
      \<and> survives negativeOnly 6 (extensions (Init 1)) (CrsPtr 0)
      \<and> Priority (negativeOnly ! 0) = - 5
      \<and> classifyAll mp cacheInit (Init 1) [tcpPkt iaS iaD] = Inr ([EmptyRulePtr], rc', cache')
      \<and> cachelessClassifyAll mp (Init 1) [tcpPkt iaS iaD] = Inr ([EmptyRulePtr], rc2)"
proof -
  have "case RulesToMap negativeOnly of
          None \<Rightarrow> False
        | Some mp \<Rightarrow>
            L4OnlyRules mp = [CrsPtr 0]
            \<and> RulesList mp = negativeOnly
            \<and> (case classifyAll mp cacheInit (Init 1) [tcpPkt iaS iaD] of
                  Inl e \<Rightarrow> False | Inr (rs, rc', cache') \<Rightarrow> length rs = 1)
            \<and> (case cachelessClassifyAll mp (Init 1) [tcpPkt iaS iaD] of
                  Inl e \<Rightarrow> False | Inr (rs, rc2) \<Rightarrow> length rs = 1)"
    by code_simp
  then obtain mp rs rc' cache' rs2 rc2 where m: "RulesToMap negativeOnly = Some mp"
    and l: "L4OnlyRules mp = [CrsPtr 0]" and rl: "RulesList mp = negativeOnly"
    and c: "classifyAll mp cacheInit (Init 1) [tcpPkt iaS iaD] = Inr (rs, rc', cache')"
    and n: "length rs = 1"
    and c2: "cachelessClassifyAll mp (Init 1) [tcpPkt iaS iaD] = Inr (rs2, rc2)"
    and n2: "length rs2 = 1"
    by (auto split: option.splits sum.splits)
  have p: "Priority (negativeOnly ! 0) = - 5"
    by (simp add: negativeOnly_def tcpRule_def)
  have s: "survives negativeOnly 6 (extensions (Init 1)) (CrsPtr 0)"
    by code_simp
  from n obtain r where rs: "rs = [r]" by (cases rs) auto
  from n2 obtain r2 where rs2: "rs2 = [r2]" by (cases rs2) auto
  from C9_no_negative_priority_rule_returned [of mp "Init 1" "[tcpPkt iaS iaD]" rs rc' cache'] c rs rl p
  have "r = EmptyRulePtr" by (auto simp: negativeOnly_def)
  moreover
  from C9_no_negative_priority_rule_returned [of mp "Init 1" "[tcpPkt iaS iaD]" rs2 rc2] c2 rs2 rl p
  have "r2 = EmptyRulePtr" by (auto simp: negativeOnly_def)
  ultimately show ?thesis using m l s p c c2 rs rs2 by blast
qed

section \<open>Properties of the extension scratch list\<close>

lemma selectRule_extensions:
  "selectRule crs rc l4t matched sad das lf intfs = Inr (r, rc') \<Longrightarrow> extensions rc' = extensions rc"
  by (drule selectRule_InrD) auto

lemma fullMatch_extensions:
  "fullMatch rules rc srcAddr dstAddr ifid l4t = Inr (r, rc') \<Longrightarrow> extensions rc' = extensions rc"
  unfolding fullMatch_def Let_def
  by (auto elim!: bindE_InrE dest: selectRule_extensions)

lemma GetRuleForPacket_extensions:
  assumes "GetRuleForPacket rules cache rc rp = Inr (r, rc', cache')"
  shows "extensions rc' = extensions rc @ HBHExt rp @ E2EExt rp"
  using assms
proof (cases rule: GetRuleForPacket_cases)
  case (hit rule)
  then show ?thesis by (simp add: appendExtensions_def)
next
  case miss
  from fullMatch_extensions [OF miss(1)] show ?thesis by (simp add: appendExtensions_def)
qed

lemma CachelessGetRuleForPacket_extensions:
  "CachelessGetRuleForPacket rules rc rp = Inr (r, rc') \<Longrightarrow>
   extensions rc' = extensions rc @ HBHExt rp @ E2EExt rp"
  unfolding CachelessGetRuleForPacket_def
  by (drule fullMatch_extensions) (simp add: appendExtensions_def)

lemma classifyAll_extensions:
  "classifyAll rules cache rc ps = Inr (rs, rc', cache') \<Longrightarrow>
   extensions rc' = extensions rc @ concat (map (\<lambda>rp. HBHExt rp @ E2EExt rp) ps)"
proof (induction ps arbitrary: cache rc rs)
  case Nil
  then show ?case by simp
next
  case (Cons rp rps)
  from Cons.prems obtain r rc1 cache1 rs1 where
    g: "GetRuleForPacket rules cache rc rp = Inr (r, rc1, cache1)"
    and a: "classifyAll rules cache1 rc1 rps = Inr (rs1, rc', cache')"
    by (auto elim!: bindE_InrE)
  from Cons.IH [OF a] GetRuleForPacket_extensions [OF g] show ?case by simp
qed

lemma cachelessClassifyAll_extensions:
  "cachelessClassifyAll rules rc ps = Inr (rs, rc') \<Longrightarrow>
   extensions rc' = extensions rc @ concat (map (\<lambda>rp. HBHExt rp @ E2EExt rp) ps)"
proof (induction ps arbitrary: rc rs)
  case Nil
  then show ?case by simp
next
  case (Cons rp rps)
  from Cons.prems obtain r rc1 rs1 where
    g: "CachelessGetRuleForPacket rules rc rp = Inr (r, rc1)"
    and a: "cachelessClassifyAll rules rc1 rps = Inr (rs1, rc')"
    by (auto elim!: bindE_InrE)
  from Cons.IH [OF a] CachelessGetRuleForPacket_extensions [OF g] show ?case by simp
qed

lemma GetRuleForPacket_consults_scratch:
  "GetRuleForPacket rules cache rc rp =
   GetRuleForPacket rules cache (rc\<lparr>extensions := extensions rc @ HBHExt rp @ E2EExt rp\<rparr>)
     (rp\<lparr>HBHExt := [], E2EExt := []\<rparr>)"
  by (simp add: GetRuleForPacket_def appendExtensions_def entryOf_def Let_def cong: if_cong)

lemma CachelessGetRuleForPacket_consults_scratch:
  "CachelessGetRuleForPacket rules rc rp =
   CachelessGetRuleForPacket rules (rc\<lparr>extensions := extensions rc @ HBHExt rp @ E2EExt rp\<rparr>)
     (rp\<lparr>HBHExt := [], E2EExt := []\<rparr>)"
  by (simp add: CachelessGetRuleForPacket_def appendExtensions_def cong: if_cong)

lemma scratch_dependence:
  "case RulesToMap needsExtension of
     None \<Rightarrow> False
   | Some mp \<Rightarrow>
       map_sum id fst (cachelessClassifyAll mp (Init 1) [tcpPkt iaD iaS]) = Inr [EmptyRulePtr]
       \<and> map_sum id fst (cachelessClassifyAll mp (Init 1)
                          [withExtension (tcpPkt iaS iaD), tcpPkt iaD iaS])
           = Inr [CrsPtr 0, CrsPtr 0]
       \<and> map_sum id fst (classifyAll mp cacheInit (Init 1) [tcpPkt iaD iaS]) = Inr [EmptyRulePtr]
       \<and> map_sum id fst (classifyAll mp cacheInit (Init 1)
                          [withExtension (tcpPkt iaS iaD), tcpPkt iaD iaS])
           = Inr [CrsPtr 0, CrsPtr 0]"
  by code_simp

text \<open>
  C10. \<open>Init\<close> sets \<open>extensions\<close> to 255 zero entries. After a classifier, with or
  without the cache, has classified the packets \<open>ps\<close>, \<open>extensions\<close> is these 255 entries
  followed by the extension lists of all the packets of \<open>ps\<close> in order. A call consults
  exactly the list it has so extended: it gives what the same call gives on a packet
  without extensions when the scratch list already holds the extended list. So a
  result can depend on earlier packets: with the rule of \<open>needsExtension\<close>, a TCP
  packet without extensions is given the default rule by a fresh classifier and the
  rule itself once a packet carrying the extension has been classified.
\<close>

theorem C10_extensions_never_cleared:
  "extensions (Init n) = replicate 255 \<lparr>Class = 0, Type = 0\<rparr>
   \<and> (classifyAll rules cache (Init n) ps = Inr (rs, rc', cache') \<longrightarrow>
        extensions rc' = replicate 255 \<lparr>Class = 0, Type = 0\<rparr>
                           @ concat (map (\<lambda>rp. HBHExt rp @ E2EExt rp) ps))
   \<and> (cachelessClassifyAll rules (Init n) ps = Inr (rs, rc') \<longrightarrow>
        extensions rc' = replicate 255 \<lparr>Class = 0, Type = 0\<rparr>
                           @ concat (map (\<lambda>rp. HBHExt rp @ E2EExt rp) ps))
   \<and> GetRuleForPacket rules cache rc rp =
       GetRuleForPacket rules cache (rc\<lparr>extensions := extensions rc @ HBHExt rp @ E2EExt rp\<rparr>)
         (rp\<lparr>HBHExt := [], E2EExt := []\<rparr>)
   \<and> CachelessGetRuleForPacket rules rc rp =
       CachelessGetRuleForPacket rules (rc\<lparr>extensions := extensions rc @ HBHExt rp @ E2EExt rp\<rparr>)
         (rp\<lparr>HBHExt := [], E2EExt := []\<rparr>)
   \<and> (case RulesToMap needsExtension of
         None \<Rightarrow> False
       | Some mp \<Rightarrow>
           map_sum id fst (cachelessClassifyAll mp (Init 1) [tcpPkt iaD iaS]) = Inr [EmptyRulePtr]
           \<and> map_sum id fst (cachelessClassifyAll mp (Init 1)
                              [withExtension (tcpPkt iaS iaD), tcpPkt iaD iaS])
               = Inr [CrsPtr 0, CrsPtr 0]
           \<and> map_sum id fst (classifyAll mp cacheInit (Init 1) [tcpPkt iaD iaS])
               = Inr [EmptyRulePtr]
           \<and> map_sum id fst (classifyAll mp cacheInit (Init 1)
                              [withExtension (tcpPkt iaS iaD), tcpPkt iaD iaS])
               = Inr [CrsPtr 0, CrsPtr 0])"
proof -
  have i: "extensions (Init n) = replicate 255 \<lparr>Class = 0, Type = 0\<rparr>"
    by (simp add: Init_def)
  have a: "classifyAll rules cache (Init n) ps = Inr (rs, rc', cache') \<longrightarrow>
        extensions rc' = replicate 255 \<lparr>Class = 0, Type = 0\<rparr>
                           @ concat (map (\<lambda>rp. HBHExt rp @ E2EExt rp) ps)"
    using classifyAll_extensions [of rules cache "Init n" ps rs rc' cache'] i by simp
  have b: "cachelessClassifyAll rules (Init n) ps = Inr (rs, rc') \<longrightarrow>
        extensions rc' = replicate 255 \<lparr>Class = 0, Type = 0\<rparr>
                           @ concat (map (\<lambda>rp. HBHExt rp @ E2EExt rp) ps)"
    using cachelessClassifyAll_extensions [of rules "Init n" ps rs rc'] i by simp
  from i a b GetRuleForPacket_consults_scratch [of rules cache rc rp]
    CachelessGetRuleForPacket_consults_scratch [of rules rc rp] scratch_dependence
  show ?thesis by blast
qed

theorem C10_extensions_never_cleared_witness:
  "\<exists>mp rs rc' cache' rs2 rc2.
      RulesToMap needsExtension = Some mp
      \<and> classifyAll mp cacheInit (Init 1) [withExtension (tcpPkt iaS iaD), tcpPkt iaD iaS]
          = Inr (rs, rc', cache')
      \<and> extensions rc' = replicate 255 \<lparr>Class = 0, Type = 0\<rparr> @ [\<lparr>Class = 6, Type = 5\<rparr>]
      \<and> cachelessClassifyAll mp (Init 1) [withExtension (tcpPkt iaS iaD), tcpPkt iaD iaS]
          = Inr (rs2, rc2)
      \<and> extensions rc2 = replicate 255 \<lparr>Class = 0, Type = 0\<rparr> @ [\<lparr>Class = 6, Type = 5\<rparr>]"
proof -
  let ?ps = "[withExtension (tcpPkt iaS iaD), tcpPkt iaD iaS]"
  have "case RulesToMap needsExtension of
          None \<Rightarrow> False
        | Some mp \<Rightarrow>
            (case classifyAll mp cacheInit (Init 1) ?ps of Inl e \<Rightarrow> False | Inr x \<Rightarrow> True)
            \<and> (case cachelessClassifyAll mp (Init 1) ?ps of Inl e \<Rightarrow> False | Inr x \<Rightarrow> True)"
    by code_simp
  then obtain mp rs rc' cache' rs2 rc2 where m: "RulesToMap needsExtension = Some mp"
    and c: "classifyAll mp cacheInit (Init 1) ?ps = Inr (rs, rc', cache')"
    and c2: "cachelessClassifyAll mp (Init 1) ?ps = Inr (rs2, rc2)"
    by (auto split: option.splits sum.splits)
  have e: "concat (map (\<lambda>rp. HBHExt rp @ E2EExt rp) ?ps) = [\<lparr>Class = 6, Type = 5\<rparr>]"
    by (simp add: withExtension_def tcpPkt_def)
  from C10_extensions_never_cleared [of 1 mp cacheInit ?ps rs rc' cache'] c e
  have 1: "extensions rc' = replicate 255 \<lparr>Class = 0, Type = 0\<rparr> @ [\<lparr>Class = 6, Type = 5\<rparr>]"
    by simp
  from C10_extensions_never_cleared [of 1 mp cacheInit ?ps rs2 rc2] c2 e
  have 2: "extensions rc2 = replicate 255 \<lparr>Class = 0, Type = 0\<rparr> @ [\<lparr>Class = 6, Type = 5\<rparr>]"
    by simp
  from m c c2 1 2 show ?thesis by blast
qed

section \<open>Properties of the cache\<close>









lemma matchL4Type_length:
  "matchL4Type crs msk list l4t exts = Inr m \<Longrightarrow> length m = length msk"
  unfolding matchL4Type_def by (drule matchL4TypeLoop_length) simp











section \<open>Properties of the choice by priority\<close>

lemma live_Cons:
  "live (p # ps) = (if p = NilPtr then [] else p # live ps)"
  by (simp add: live_def)

lemma maskTells_head:
  "maskTells crs l4t exts msk i (p # ps) \<Longrightarrow> i < length msk \<Longrightarrow>
   msk ! i = (p \<noteq> NilPtr \<and> survives crs l4t exts p)"
  unfolding maskTells_def by (drule spec [of _ 0]) (simp add: live_Cons)

lemma maskTells_tail:
  assumes "maskTells crs l4t exts msk i (p # ps)" and "p \<noteq> NilPtr"
  shows "maskTells crs l4t exts msk (Suc i) ps"
  unfolding maskTells_def
proof (intro allI impI)
  fix j
  assume j: "j < length ps" and l: "Suc i + j < length msk"
  from assms(1) j l have "msk ! (i + Suc j)
      = (Suc j < length (live (p # ps)) \<and> survives crs l4t exts ((p # ps) ! Suc j))"
    unfolding maskTells_def by (metis add_Suc_shift length_Cons not_less_eq)
  with assms(2) show "msk ! (Suc i + j) = (j < length (live ps) \<and> survives crs l4t exts (ps ! j))"
    by (simp add: live_Cons)
qed

lemma matchL4Type_maskTells:
  assumes "matchL4Type crs msk g l4t exts = Inr mk"
  shows "maskTells crs l4t exts mk 0 g"
proof -
  from assms have run: "matchL4TypeLoop crs 0 g l4t exts (replicate (length msk) False) = Inr mk"
    by (simp add: matchL4Type_def)
  from matchL4TypeLoop_length [OF run] have len: "length mk = length msk" by simp
  show ?thesis
    unfolding maskTells_def
  proof (intro allI impI)
    fix j
    assume "j < length g" and "0 + j < length mk"
    with len matchL4TypeLoop_nth [OF run, of j]
    show "mk ! (0 + j) = (j < length (live g) \<and> survives crs l4t exts (g ! j))"
      by (simp add: live_def)
  qed
qed

lemma survives_prioOf:
  "deref crs p = Inr rule \<Longrightarrow> prioOf crs p = Priority rule"
  by (simp add: prioOf_def)

text \<open>The outcome of the priority loop, given what the mask tells.\<close>

lemma prevMaxLoop_outcome:
  "prevMaxLoop crs i ps msk ret m = Inr (m', r') \<Longrightarrow> maskTells crs l4t exts msk i ps \<Longrightarrow>
   m \<le> m'
   \<and> (\<forall>p\<in>set (leadingSurvivors crs l4t exts ps). prioOf crs p \<le> m')
   \<and> ((m' = m \<and> r' = ret)
      \<or> (m < m' \<and> r' \<in> set (leadingSurvivors crs l4t exts ps) \<and> prioOf crs r' = m'))"
proof (induction ps arbitrary: i ret m)
  case Nil
  then show ?case by (simp add: leadingSurvivors_def live_def)
next
  case (Cons p ps)
  from Cons.prems(1) have il: "i < length msk" by (auto split: if_splits)
  from maskTells_head [OF Cons.prems(2) il]
  have hd: "msk ! i = (p \<noteq> NilPtr \<and> survives crs l4t exts p)" .
  show ?case
  proof (cases "msk ! i")
    case False
    with hd have "leadingSurvivors crs l4t exts (p # ps) = []"
      by (auto simp: leadingSurvivors_def live_Cons)
    with Cons.prems(1) il False show ?thesis by simp
  next
    case True
    with hd have pn: "p \<noteq> NilPtr" and sv: "survives crs l4t exts p" by simp_all
    from pn sv have ls: "leadingSurvivors crs l4t exts (p # ps) = p # leadingSurvivors crs l4t exts ps"
      by (simp add: leadingSurvivors_def live_Cons)
    from Cons.prems(1) il True obtain rule where d: "deref crs p = Inr rule"
      by (auto elim!: bindE_InrE)
    note pr = survives_prioOf [OF d]
    note mt = maskTells_tail [OF Cons.prems(2) pn]
    show ?thesis
    proof (cases "m < Priority rule")
      case up: True
      with Cons.prems(1) il True d
      have r: "prevMaxLoop crs (Suc i) ps msk p (Priority rule) = Inr (m', r')" by simp
      from Cons.IH [OF r mt] up pr ls show ?thesis by auto
    next
      case keep: False
      with Cons.prems(1) il True d
      have r: "prevMaxLoop crs (Suc i) ps msk ret m = Inr (m', r')" by simp
      from Cons.IH [OF r mt] keep pr ls show ?thesis by auto
    qed
  qed
qed

lemma group_outcome:
  assumes "matchL4Type crs msk g l4t exts = Inr mk"
    and "getRuleWithPrevMax crs ret mk g m = Inr (m', r')"
  shows "m \<le> m'
   \<and> (\<forall>p\<in>set (leadingSurvivors crs l4t exts g). prioOf crs p \<le> m')
   \<and> ((m' = m \<and> r' = ret)
      \<or> (m < m' \<and> r' \<in> set (leadingSurvivors crs l4t exts g) \<and> prioOf crs r' = m'))"
  using assms(2) matchL4Type_maskTells [OF assms(1)]
  unfolding getRuleWithPrevMax_def by (rule prevMaxLoop_outcome)

lemma validPtr_deref:
  "validPtr crs p \<Longrightarrow> \<exists>rule. deref crs p = Inr rule"
  by (cases "deref crs p") (simp_all add: validPtr_def)

lemma matchL4TypeLoop_total:
  "list_all (validPtr crs) (live ps) \<Longrightarrow> i + length (live ps) \<le> length msk \<Longrightarrow>
   \<exists>mk. matchL4TypeLoop crs i ps l4t exts msk = Inr mk"
proof (induction ps arbitrary: i msk)
  case Nil
  show ?case by simp
next
  case (Cons p ps)
  show ?case
  proof (cases "p = NilPtr")
    case True
    then show ?thesis by simp
  next
    case False
    with Cons.prems have vp: "validPtr crs p"
      and v: "list_all (validPtr crs) (live ps)" and l: "Suc i + length (live ps) \<le> length msk"
      by (simp_all add: live_Cons)
    from validPtr_deref [OF vp] obtain rule where d: "deref crs p = Inr rule" ..
    from Cons.IH [OF v, of "Suc i" "msk[i := True]"] Cons.IH [OF v, of "Suc i" msk] l d False
    show ?thesis by auto
  qed
qed

lemma matchL4Type_total:
  assumes "readable crs msk g"
  shows "\<exists>mk. matchL4Type crs msk g l4t exts = Inr mk"
proof -
  have "length (live g) \<le> length g"
    by (simp add: live_def length_takeWhile_le)
  with assms have "list_all (validPtr crs) (live g)"
    and "0 + length (live g) \<le> length (replicate (length msk) False)"
    by (auto simp: readable_def)
  from matchL4TypeLoop_total [OF this] show ?thesis
    by (simp add: matchL4Type_def)
qed

lemma prevMaxLoop_total:
  "maskTells crs l4t exts msk i ps \<Longrightarrow> list_all (validPtr crs) (live ps) \<Longrightarrow>
   i + length (live ps) < length msk \<or> i + length ps \<le> length msk \<Longrightarrow>
   \<exists>res. prevMaxLoop crs i ps msk ret m = Inr res"
proof (induction ps arbitrary: i ret m)
  case Nil
  show ?case by simp
next
  case (Cons p ps)
  from Cons.prems(3) have il: "i < length msk" by auto
  from maskTells_head [OF Cons.prems(1) il]
  have hd: "msk ! i = (p \<noteq> NilPtr \<and> survives crs l4t exts p)" .
  show ?case
  proof (cases "msk ! i")
    case False
    with il show ?thesis by simp
  next
    case True
    with hd have pn: "p \<noteq> NilPtr" by simp
    with Cons.prems(2,3) have vp: "validPtr crs p"
      and v: "list_all (validPtr crs) (live ps)"
      and l: "Suc i + length (live ps) < length msk \<or> Suc i + length ps \<le> length msk"
      by (simp_all add: live_Cons)
    from validPtr_deref [OF vp] obtain rule where d: "deref crs p = Inr rule" ..
    note mt = maskTells_tail [OF Cons.prems(1) pn]
    from Cons.IH [OF mt v l, of p "Priority rule"] Cons.IH [OF mt v l, of ret m] il True d
    show ?thesis by auto
  qed
qed

lemma getRuleWithPrevMax_total:
  assumes "readable crs msk g" and "matchL4Type crs msk g l4t exts = Inr mk"
  shows "\<exists>res. getRuleWithPrevMax crs ret mk g m = Inr res"
proof -
  from matchL4Type_length [OF assms(2)] assms(1)
  have "list_all (validPtr crs) (live g)"
    and "0 + length (live g) < length mk \<or> 0 + length g \<le> length mk"
    by (auto simp: readable_def)
  from prevMaxLoop_total [OF matchL4Type_maskTells [OF assms(2)] this] show ?thesis
    by (simp add: getRuleWithPrevMax_def)
qed

lemma chooseAll_outcome:
  "chooseAll crs ret m gs = Inr (m', r') \<Longrightarrow>
   \<forall>(mk, g)\<in>set gs. maskTells crs l4t exts mk 0 g \<Longrightarrow>
   m \<le> m'
   \<and> (\<forall>p\<in>set (concat (map (\<lambda>(mk, g). leadingSurvivors crs l4t exts g) gs)). prioOf crs p \<le> m')
   \<and> ((m' = m \<and> r' = ret)
      \<or> (m < m' \<and> r' \<in> set (concat (map (\<lambda>(mk, g). leadingSurvivors crs l4t exts g) gs))
          \<and> prioOf crs r' = m'))"
proof (induction gs arbitrary: ret m)
  case Nil
  then show ?case by simp
next
  case (Cons a gs)
  obtain mk g where a: "a = (mk, g)" by (cases a)
  from Cons.prems(1) a obtain m1 r1 where
    g1: "getRuleWithPrevMax crs ret mk g m = Inr (m1, r1)"
    and rest: "chooseAll crs r1 m1 gs = Inr (m', r')"
    by (auto elim!: bindE_InrE)
  from Cons.prems(2) a have mt: "maskTells crs l4t exts mk 0 g"
    and mts: "\<forall>(mk, g)\<in>set gs. maskTells crs l4t exts mk 0 g" by simp_all
  from prevMaxLoop_outcome [OF g1 [unfolded getRuleWithPrevMax_def] mt]
  have 1: "m \<le> m1" "\<forall>p\<in>set (leadingSurvivors crs l4t exts g). prioOf crs p \<le> m1"
    "(m1 = m \<and> r1 = ret)
      \<or> (m < m1 \<and> r1 \<in> set (leadingSurvivors crs l4t exts g) \<and> prioOf crs r1 = m1)"
    by simp_all
  from Cons.IH [OF rest mts]
  have 2: "m1 \<le> m'"
    "\<forall>p\<in>set (concat (map (\<lambda>(mk, g). leadingSurvivors crs l4t exts g) gs)). prioOf crs p \<le> m'"
    "(m' = m1 \<and> r' = r1)
      \<or> (m1 < m' \<and> r' \<in> set (concat (map (\<lambda>(mk, g). leadingSurvivors crs l4t exts g) gs))
          \<and> prioOf crs r' = m')"
    by simp_all
  from 1(1) 2(1) have le: "m \<le> m'" by simp
  from 1(2) 2(1,2) a
  have all: "\<forall>p\<in>set (concat (map (\<lambda>(mk, g). leadingSurvivors crs l4t exts g) (a # gs))).
               prioOf crs p \<le> m'"
    by fastforce
  from 1(1,3) 2(1,3) a
  have "(m' = m \<and> r' = ret)
      \<or> (m < m' \<and> r' \<in> set (concat (map (\<lambda>(mk, g). leadingSurvivors crs l4t exts g) (a # gs)))
          \<and> prioOf crs r' = m')"
    by auto
  with le all show ?case by simp
qed

lemma chooseAll_total:
  "\<forall>(mk, g)\<in>set gs. maskTells crs l4t exts mk 0 g \<and> list_all (validPtr crs) (live g)
      \<and> (length (live g) < length mk \<or> length g \<le> length mk) \<Longrightarrow>
   \<exists>res. chooseAll crs ret m gs = Inr res"
proof (induction gs arbitrary: ret m)
  case Nil
  show ?case by simp
next
  case (Cons a gs)
  obtain mk g where a: "a = (mk, g)" by (cases a)
  from Cons.prems a have mt: "maskTells crs l4t exts mk 0 g"
    and v: "list_all (validPtr crs) (live g)"
    and l: "0 + length (live g) < length mk \<or> 0 + length g \<le> length mk"
    and rest: "\<forall>(mk, g)\<in>set gs. maskTells crs l4t exts mk 0 g \<and> list_all (validPtr crs) (live g)
      \<and> (length (live g) < length mk \<or> length g \<le> length mk)"
    by simp_all
  from prevMaxLoop_total [OF mt v l, of ret m] obtain m1 r1 where
    "getRuleWithPrevMax crs ret mk g m = Inr (m1, r1)"
    by (auto simp: getRuleWithPrevMax_def)
  with Cons.IH [OF rest, of r1 m1] a show ?case by simp
qed

lemma selectRule_chooseAll:
  assumes "matchL4Type crs (maskMatched rc) matched l4t (extensions rc) = Inr mMatched"
    and "matchL4Type crs (maskSad rc) sad l4t (extensions rc) = Inr mSad"
    and "matchL4Type crs (maskDas rc) das l4t (extensions rc) = Inr mDas"
    and "matchL4Type crs (maskLf rc) lf l4t (extensions rc) = Inr mLf"
    and "matchL4Type crs (maskIntf rc) intfs l4t (extensions rc) = Inr mIntf"
  shows "selectRule crs rc l4t matched sad das lf intfs =
     bindE (chooseAll crs EmptyRulePtr (- 1)
              [(mMatched, matched), (mSad, sad), (mDas, das), (mIntf, intfs), (mLf, lf)])
       (\<lambda>(m, r). Inr (r, rc\<lparr>maskMatched := mMatched, maskSad := mSad, maskDas := mDas,
                                maskLf := mLf, maskIntf := mIntf\<rparr>))"
  using assms
  by (simp add: selectRule_def Let_def bindE_def split: sum.splits prod.splits)

lemma selectRule_outcome:
  assumes "selectRule crs rc l4t matched sad das lf intfs = Inr (r, rc')"
  shows "\<exists>m. - 1 \<le> m
     \<and> (\<forall>p\<in>set (concat (map (leadingSurvivors crs l4t (extensions rc))
                              [matched, sad, das, intfs, lf])). prioOf crs p \<le> m)
     \<and> ((m = - 1 \<and> r = EmptyRulePtr)
        \<or> (- 1 < m \<and> prioOf crs r = m
            \<and> r \<in> set (concat (map (leadingSurvivors crs l4t (extensions rc))
                                  [matched, sad, das, intfs, lf]))))"
proof -
  from selectRule_InrD [OF assms] obtain mMatched mSad mDas mLf mIntf where
    m1: "matchL4Type crs (maskMatched rc) matched l4t (extensions rc) = Inr mMatched"
    and m2: "matchL4Type crs (maskSad rc) sad l4t (extensions rc) = Inr mSad"
    and m3: "matchL4Type crs (maskDas rc) das l4t (extensions rc) = Inr mDas"
    and m4: "matchL4Type crs (maskLf rc) lf l4t (extensions rc) = Inr mLf"
    and m5: "matchL4Type crs (maskIntf rc) intfs l4t (extensions rc) = Inr mIntf"
    by blast
  let ?gs = "[(mMatched, matched), (mSad, sad), (mDas, das), (mIntf, intfs), (mLf, lf)]"
  from assms selectRule_chooseAll [OF m1 m2 m3 m4 m5]
  obtain m where ch: "chooseAll crs EmptyRulePtr (- 1) ?gs = Inr (m, r)"
    by (auto elim!: bindE_InrE)
  have mt: "\<forall>(mk, g)\<in>set ?gs. maskTells crs l4t (extensions rc) mk 0 g"
    using m1 m2 m3 m4 m5 by (simp add: matchL4Type_maskTells)
  from chooseAll_outcome [OF ch mt] show ?thesis
    by (intro exI [of _ m]) auto
qed

lemma selectRule_total:
  assumes "readable crs (maskMatched rc) matched" and "readable crs (maskSad rc) sad"
    and "readable crs (maskDas rc) das" and "readable crs (maskLf rc) lf"
    and "readable crs (maskIntf rc) intfs"
  shows "\<exists>r rc'. selectRule crs rc l4t matched sad das lf intfs = Inr (r, rc')"
proof -
  let ?x = "extensions rc"
  from matchL4Type_total [OF assms(1)] obtain mMatched where
    m1: "matchL4Type crs (maskMatched rc) matched l4t ?x = Inr mMatched" by blast
  from matchL4Type_total [OF assms(2)] obtain mSad where
    m2: "matchL4Type crs (maskSad rc) sad l4t ?x = Inr mSad" by blast
  from matchL4Type_total [OF assms(3)] obtain mDas where
    m3: "matchL4Type crs (maskDas rc) das l4t ?x = Inr mDas" by blast
  from matchL4Type_total [OF assms(4)] obtain mLf where
    m4: "matchL4Type crs (maskLf rc) lf l4t ?x = Inr mLf" by blast
  from matchL4Type_total [OF assms(5)] obtain mIntf where
    m5: "matchL4Type crs (maskIntf rc) intfs l4t ?x = Inr mIntf" by blast
  let ?gs = "[(mMatched, matched), (mSad, sad), (mDas, das), (mIntf, intfs), (mLf, lf)]"
  have "\<forall>(mk, g)\<in>set ?gs. maskTells crs l4t ?x mk 0 g \<and> list_all (validPtr crs) (live g)
      \<and> (length (live g) < length mk \<or> length g \<le> length mk)"
    using assms m1 m2 m3 m4 m5 matchL4Type_length [OF m1] matchL4Type_length [OF m2]
      matchL4Type_length [OF m3] matchL4Type_length [OF m4] matchL4Type_length [OF m5]
    by (simp add: matchL4Type_maskTells readable_def)
  from chooseAll_total [OF this, of EmptyRulePtr "- 1"] obtain m r where
    "chooseAll crs EmptyRulePtr (- 1) ?gs = Inr (m, r)" by auto
  with selectRule_chooseAll [OF m1 m2 m3 m4 m5] show ?thesis by simp
qed

lemma leadingSurvivors_subset:
  "set (leadingSurvivors crs l4t exts g) \<subseteq> set (survivors crs l4t exts g)"
  unfolding leadingSurvivors_def survivors_def
  by (induction "live g") (auto dest: set_takeWhileD)

lemma survivors_not_nil:
  "p \<in> set (survivors crs l4t exts g) \<Longrightarrow> p \<noteq> NilPtr"
  by (auto simp: survivors_def live_def dest: set_takeWhileD)

lemma fullMatch_selectRule:
  assumes "c = lookupCandidates rules srcAddr dstAddr ifid"
    and "intersectListsRules
           (exactAndRangeSourceMatches c, asOnlySourceRules c, isdOnlySourceRules c)
           (exactAndRangeDestinationMatches c, asOnlyDestinationRules c, isdOnlyDestinationRules c)
         = Inr matched"
  shows "fullMatch rules rc srcAddr dstAddr ifid l4t =
         selectRule (RulesList rules) rc l4t matched (sourceAnyDestinationMatches c)
           (destinationAnySourceRules c) (l4OnlyRules c) (interfaceIncomingRules c)"
  using assms by (simp add: fullMatch_def Let_def)

lemma GetRuleForPacket_miss:
  assumes "cacheGet cache (entryOf rp) = NilPtr"
    and "CachelessGetRuleForPacket rules rc rp = Inr (r, rc')"
  shows "GetRuleForPacket rules cache rc rp = Inr (r, rc', cachePut cache (entryOf rp) r)"
  using assms by (simp add: GetRuleForPacket_def CachelessGetRuleForPacket_def Let_def)

text \<open>
  What the full match does get right. Name the groups of a packet as the source does:
  \<open>matched\<close>, the rules from any destination, the rules from any source, the interface
  rules and the L4-only rules, each with its mask; let \<open>S\<close> be their survivors of
  priority above \<open>-1\<close>. Whenever the full match returns, the rule is not \<open>nil\<close>: it is
  the default rule or a member of \<open>S\<close>. When every group is readable and contiguous,
  the full match does return (and on a cache miss the cached classifier returns the
  same rule and caches it): the default rule if \<open>S\<close> is empty, otherwise a rule of \<open>S\<close>
  whose priority is the greatest in \<open>S\<close>. The default rule has name \<open>default\<close>,
  priority 0 and queue number 0.
\<close>

lemma greatest_priority_of_contiguous_survivors:
  assumes c: "c = lookupCandidates rules (SrcIA rp) (DstIA rp) (IngressIfID rp)"
    and i: "intersectListsRules
           (exactAndRangeSourceMatches c, asOnlySourceRules c, isdOnlySourceRules c)
           (exactAndRangeDestinationMatches c, asOnlyDestinationRules c, isdOnlyDestinationRules c)
         = Inr matched"
    and gs: "groups = [(maskMatched rc, matched), (maskSad rc, sourceAnyDestinationMatches c),
                       (maskDas rc, destinationAnySourceRules c),
                       (maskIntf rc, interfaceIncomingRules c), (maskLf rc, l4OnlyRules c)]"
    and x: "exts = extensions rc @ HBHExt rp @ E2EExt rp"
    and S: "S = filter (\<lambda>p. - 1 < prioOf (RulesList rules) p)
                  (concat (map (\<lambda>(msk, g). survivors (RulesList rules) (pktL4Type rp) exts g)
                     groups))"
  shows "(\<forall>r rc'. CachelessGetRuleForPacket rules rc rp = Inr (r, rc') \<longrightarrow>
            r \<noteq> NilPtr \<and> (r = EmptyRulePtr \<or> r \<in> set S))
         \<and> ((\<forall>(msk, g)\<in>set groups.
               readable (RulesList rules) msk g
               \<and> contiguous (RulesList rules) (pktL4Type rp) exts g) \<longrightarrow>
              (\<exists>r rc'. CachelessGetRuleForPacket rules rc rp = Inr (r, rc')
                 \<and> (cacheGet cache (entryOf rp) = NilPtr \<longrightarrow>
                      GetRuleForPacket rules cache rc rp
                        = Inr (r, rc', cachePut cache (entryOf rp) r))
                 \<and> r \<noteq> NilPtr
                 \<and> (if S = [] then r = EmptyRulePtr
                      else r \<in> set S
                           \<and> (\<forall>s\<in>set S. prioOf (RulesList rules) s
                                           \<le> prioOf (RulesList rules) r))))
         \<and> deref (RulesList rules) EmptyRulePtr = Inr emptyRule
         \<and> Name emptyRule = ''default'' \<and> Priority emptyRule = 0 \<and> QueueNumber emptyRule = 0"
proof -
  let ?crs = "RulesList rules"
  let ?l4t = "pktL4Type rp"
  let ?rc1 = "appendExtensions rc rp"
  let ?gl = "[matched, sourceAnyDestinationMatches c, destinationAnySourceRules c,
              interfaceIncomingRules c, l4OnlyRules c]"
  let ?LS = "concat (map (leadingSurvivors ?crs ?l4t exts) ?gl)"
  let ?SV = "concat (map (survivors ?crs ?l4t exts) ?gl)"
  have x1: "extensions ?rc1 = exts"
    by (simp add: x appendExtensions_def)
  have sel: "CachelessGetRuleForPacket rules rc rp =
      selectRule ?crs ?rc1 ?l4t matched (sourceAnyDestinationMatches c)
        (destinationAnySourceRules c) (l4OnlyRules c) (interfaceIncomingRules c)"
    unfolding CachelessGetRuleForPacket_def by (rule fullMatch_selectRule [OF c i])
  have Sdef: "S = filter (\<lambda>p. - 1 < prioOf ?crs p) ?SV"
    by (simp add: S gs)
  have inS: "p \<in> set S \<longleftrightarrow> p \<in> set ?SV \<and> - 1 < prioOf ?crs p" for p
    by (simp only: Sdef set_filter mem_Collect_eq)
  have sub: "set ?LS \<subseteq> set ?SV"
    using leadingSurvivors_subset [of ?crs ?l4t exts] by fastforce
  have nn: "p \<in> set ?SV \<Longrightarrow> p \<noteq> NilPtr" for p
    by (auto dest: survivors_not_nil)
  have outcome: "\<exists>m. - 1 \<le> m \<and> (\<forall>p\<in>set ?LS. prioOf ?crs p \<le> m)
       \<and> ((m = - 1 \<and> r = EmptyRulePtr) \<or> (- 1 < m \<and> prioOf ?crs r = m \<and> r \<in> set ?LS))"
    if "CachelessGetRuleForPacket rules rc rp = Inr (r, rc')" for r rc'
    using selectRule_outcome [OF that [unfolded sel]] by (simp only: x1)
  have partA: "r \<noteq> NilPtr \<and> (r = EmptyRulePtr \<or> r \<in> set S)"
    if "CachelessGetRuleForPacket rules rc rp = Inr (r, rc')" for r rc'
  proof -
    from outcome [OF that] obtain m where
      "(m = - 1 \<and> r = EmptyRulePtr) \<or> (- 1 < m \<and> prioOf ?crs r = m \<and> r \<in> set ?LS)"
      by blast
    then show ?thesis
    proof
      assume "m = - 1 \<and> r = EmptyRulePtr"
      then show ?thesis by simp
    next
      assume a: "- 1 < m \<and> prioOf ?crs r = m \<and> r \<in> set ?LS"
      with sub have "r \<in> set ?SV" by blast
      with a nn [of r] inS [of r] show ?thesis by blast
    qed
  qed
  have partB: "\<exists>r rc'. CachelessGetRuleForPacket rules rc rp = Inr (r, rc')
                 \<and> (cacheGet cache (entryOf rp) = NilPtr \<longrightarrow>
                      GetRuleForPacket rules cache rc rp
                        = Inr (r, rc', cachePut cache (entryOf rp) r))
                 \<and> r \<noteq> NilPtr
                 \<and> (if S = [] then r = EmptyRulePtr
                      else r \<in> set S \<and> (\<forall>s\<in>set S. prioOf ?crs s \<le> prioOf ?crs r))"
    if wf: "\<forall>(msk, g)\<in>set groups. readable ?crs msk g \<and> contiguous ?crs ?l4t exts g"
  proof -
    from wf gs have rd: "readable ?crs (maskMatched ?rc1) matched"
      "readable ?crs (maskSad ?rc1) (sourceAnyDestinationMatches c)"
      "readable ?crs (maskDas ?rc1) (destinationAnySourceRules c)"
      "readable ?crs (maskLf ?rc1) (l4OnlyRules c)"
      "readable ?crs (maskIntf ?rc1) (interfaceIncomingRules c)"
      by (simp_all add: appendExtensions_def)
    from wf gs have eq: "?LS = ?SV"
      by (simp add: contiguous_def)
    from selectRule_total [OF rd, of ?l4t] sel obtain r rc' where
      res: "CachelessGetRuleForPacket rules rc rp = Inr (r, rc')" by auto
    from outcome [OF res] obtain m where
      le0: "\<forall>p\<in>set ?LS. prioOf ?crs p \<le> m"
      and d0: "(m = - 1 \<and> r = EmptyRulePtr) \<or> (- 1 < m \<and> prioOf ?crs r = m \<and> r \<in> set ?LS)"
      by blast
    note le = le0 [unfolded eq] and d = d0 [unfolded eq]
    have "if S = [] then r = EmptyRulePtr
          else r \<in> set S \<and> (\<forall>s\<in>set S. prioOf ?crs s \<le> prioOf ?crs r)"
    proof (cases "S = []")
      case True
      have "r = EmptyRulePtr"
      proof (rule ccontr)
        assume "r \<noteq> EmptyRulePtr"
        with d inS [of r] have "r \<in> set S" by blast
        with True show False by simp
      qed
      with True show ?thesis by simp
    next
      case False
      then obtain s where "s \<in> set S" by (cases S) auto
      with inS [of s] le have "- 1 < m" by fastforce
      with d inS [of r] have rS: "r \<in> set S" and pr: "prioOf ?crs r = m" by auto
      from le inS pr have "\<forall>s\<in>set S. prioOf ?crs s \<le> prioOf ?crs r" by blast
      with rS False show ?thesis by simp
    qed
    with res partA [OF res] GetRuleForPacket_miss [OF _ res, of cache] show ?thesis by blast
  qed
  have e: "deref ?crs EmptyRulePtr = Inr emptyRule \<and> Name emptyRule = ''default''
           \<and> Priority emptyRule = 0 \<and> QueueNumber emptyRule = 0"
    by (simp add: deref_def emptyRule_def)
  from partA partB e show ?thesis by blast
qed

text \<open>
  The five rules of \<open>fiveRules\<close> and a TCP packet from \<open>iaS\<close> to \<open>iaD\<close>: every group is
  readable and contiguous, and the rule of priority 7 is returned.
\<close>

lemma greatest_priority_of_contiguous_survivors_example:
  "\<exists>mp c matched groups exts S rc'.
      RulesToMap fiveRules = Some mp
      \<and> c = lookupCandidates mp (SrcIA (tcpPkt iaS iaD)) (DstIA (tcpPkt iaS iaD))
               (IngressIfID (tcpPkt iaS iaD))
      \<and> intersectListsRules
           (exactAndRangeSourceMatches c, asOnlySourceRules c, isdOnlySourceRules c)
           (exactAndRangeDestinationMatches c, asOnlyDestinationRules c, isdOnlyDestinationRules c)
         = Inr matched
      \<and> groups = [(maskMatched (Init 5), matched),
                    (maskSad (Init 5), sourceAnyDestinationMatches c),
                    (maskDas (Init 5), destinationAnySourceRules c),
                    (maskIntf (Init 5), interfaceIncomingRules c),
                    (maskLf (Init 5), l4OnlyRules c)]
      \<and> exts = extensions (Init 5) @ HBHExt (tcpPkt iaS iaD) @ E2EExt (tcpPkt iaS iaD)
      \<and> S = [CrsPtr 0, CrsPtr 2, CrsPtr 1, CrsPtr 3]
      \<and> list_all (\<lambda>(msk, g). readable (RulesList mp) msk g
              \<and> contiguous (RulesList mp) (pktL4Type (tcpPkt iaS iaD)) exts g) groups
      \<and> CachelessGetRuleForPacket mp (Init 5) (tcpPkt iaS iaD) = Inr (CrsPtr 1, rc')
      \<and> GetRuleForPacket mp cacheInit (Init 5) (tcpPkt iaS iaD)
          = Inr (CrsPtr 1, rc', cachePut cacheInit (entryOf (tcpPkt iaS iaD)) (CrsPtr 1))
      \<and> prioOf (RulesList mp) (CrsPtr 1) = 7"
proof -
  let ?rp = "tcpPkt iaS iaD"
  let ?m = "CrsPtr 0 # replicate 9 NilPtr"
  let ?x = "extensions (Init 5) @ HBHExt ?rp @ E2EExt ?rp"
  have "case RulesToMap fiveRules of
          None \<Rightarrow> False
        | Some mp \<Rightarrow>
            (let c = lookupCandidates mp (SrcIA ?rp) (DstIA ?rp) (IngressIfID ?rp);
                 groups = [(maskMatched (Init 5), ?m),
                    (maskSad (Init 5), sourceAnyDestinationMatches c),
                    (maskDas (Init 5), destinationAnySourceRules c),
                    (maskIntf (Init 5), interfaceIncomingRules c),
                    (maskLf (Init 5), l4OnlyRules c)]
             in intersectListsRules
                  (exactAndRangeSourceMatches c, asOnlySourceRules c, isdOnlySourceRules c)
                  (exactAndRangeDestinationMatches c, asOnlyDestinationRules c,
                   isdOnlyDestinationRules c) = Inr ?m
                \<and> filter (\<lambda>p. - 1 < prioOf (RulesList mp) p)
                     (concat (map (\<lambda>(msk, g). survivors (RulesList mp) (pktL4Type ?rp) ?x g)
                        groups)) = [CrsPtr 0, CrsPtr 2, CrsPtr 1, CrsPtr 3]
                \<and> list_all (\<lambda>(msk, g). readable (RulesList mp) msk g
                       \<and> contiguous (RulesList mp) (pktL4Type ?rp) ?x g) groups
                \<and> prioOf (RulesList mp) (CrsPtr 0) = 3
                \<and> prioOf (RulesList mp) (CrsPtr 1) = 7
                \<and> prioOf (RulesList mp) (CrsPtr 2) = 5
                \<and> prioOf (RulesList mp) (CrsPtr 3) = 2
                \<and> cacheGet cacheInit (entryOf ?rp) = NilPtr)"
    by code_simp
  then obtain mp where m: "RulesToMap fiveRules = Some mp"
    and ev: "let c = lookupCandidates mp (SrcIA ?rp) (DstIA ?rp) (IngressIfID ?rp);
                 groups = [(maskMatched (Init 5), ?m),
                    (maskSad (Init 5), sourceAnyDestinationMatches c),
                    (maskDas (Init 5), destinationAnySourceRules c),
                    (maskIntf (Init 5), interfaceIncomingRules c),
                    (maskLf (Init 5), l4OnlyRules c)]
             in intersectListsRules
                  (exactAndRangeSourceMatches c, asOnlySourceRules c, isdOnlySourceRules c)
                  (exactAndRangeDestinationMatches c, asOnlyDestinationRules c,
                   isdOnlyDestinationRules c) = Inr ?m
                \<and> filter (\<lambda>p. - 1 < prioOf (RulesList mp) p)
                     (concat (map (\<lambda>(msk, g). survivors (RulesList mp) (pktL4Type ?rp) ?x g)
                        groups)) = [CrsPtr 0, CrsPtr 2, CrsPtr 1, CrsPtr 3]
                \<and> list_all (\<lambda>(msk, g). readable (RulesList mp) msk g
                       \<and> contiguous (RulesList mp) (pktL4Type ?rp) ?x g) groups
                \<and> prioOf (RulesList mp) (CrsPtr 0) = 3
                \<and> prioOf (RulesList mp) (CrsPtr 1) = 7
                \<and> prioOf (RulesList mp) (CrsPtr 2) = 5
                \<and> prioOf (RulesList mp) (CrsPtr 3) = 2
                \<and> cacheGet cacheInit (entryOf ?rp) = NilPtr"
    by (cases "RulesToMap fiveRules") auto
  define c where "c = lookupCandidates mp (SrcIA ?rp) (DstIA ?rp) (IngressIfID ?rp)"
  define groups where "groups = [(maskMatched (Init 5), ?m),
                    (maskSad (Init 5), sourceAnyDestinationMatches c),
                    (maskDas (Init 5), destinationAnySourceRules c),
                    (maskIntf (Init 5), interfaceIncomingRules c),
                    (maskLf (Init 5), l4OnlyRules c)]"
  define S where "S = [CrsPtr 0, CrsPtr 2, CrsPtr 1, CrsPtr 3]"
  from ev have i: "intersectListsRules
                  (exactAndRangeSourceMatches c, asOnlySourceRules c, isdOnlySourceRules c)
                  (exactAndRangeDestinationMatches c, asOnlyDestinationRules c,
                   isdOnlyDestinationRules c) = Inr ?m"
    and Seq: "S = filter (\<lambda>p. - 1 < prioOf (RulesList mp) p)
                     (concat (map (\<lambda>(msk, g). survivors (RulesList mp) (pktL4Type ?rp) ?x g)
                        groups))"
    and wf: "list_all (\<lambda>(msk, g). readable (RulesList mp) msk g
                       \<and> contiguous (RulesList mp) (pktL4Type ?rp) ?x g) groups"
    and pr: "prioOf (RulesList mp) (CrsPtr 0) = 3" "prioOf (RulesList mp) (CrsPtr 1) = 7"
      "prioOf (RulesList mp) (CrsPtr 2) = 5" "prioOf (RulesList mp) (CrsPtr 3) = 2"
    and miss: "cacheGet cacheInit (entryOf ?rp) = NilPtr"
    by (simp_all add: Let_def c_def groups_def S_def)
  from wf have wf': "\<forall>(msk, g)\<in>set groups. readable (RulesList mp) msk g
                       \<and> contiguous (RulesList mp) (pktL4Type ?rp) ?x g"
    by (simp add: list_all_iff)
  from greatest_priority_of_contiguous_survivors [OF c_def i groups_def refl Seq, of cacheInit] wf' miss
  obtain r rc' where res: "CachelessGetRuleForPacket mp (Init 5) ?rp = Inr (r, rc')"
    and hit: "GetRuleForPacket mp cacheInit (Init 5) ?rp
                = Inr (r, rc', cachePut cacheInit (entryOf ?rp) r)"
    and sel: "if S = [] then r = EmptyRulePtr
              else r \<in> set S \<and> (\<forall>s\<in>set S. prioOf (RulesList mp) s \<le> prioOf (RulesList mp) r)"
    by blast
  from sel pr have "r = CrsPtr 1"
    by (auto simp: S_def)
  with m c_def i groups_def S_def wf res hit pr(2) show ?thesis
    by blast
qed

text \<open>
  A survivor of negative priority loses to the default rule. The one rule of
  \<open>negativeOnly\<close> is an L4-only candidate that accepts the TCP packet, so the union of
  survivors is not empty; both classifiers return the default rule, since the maximum
  starts at \<open>-1\<close>.
\<close>

lemma negative_priority_survivor_loses:
  "case RulesToMap negativeOnly of
     None \<Rightarrow> False
   | Some mp \<Rightarrow>
       l4OnlyRules (lookupCandidates mp iaS iaD 1) = [CrsPtr 0]
       \<and> survivors (RulesList mp) 6 (extensions (Init 1)) [CrsPtr 0] = [CrsPtr 0]
       \<and> map_sum id fst (CachelessGetRuleForPacket mp (Init 1) (tcpPkt iaS iaD)) = Inr EmptyRulePtr
       \<and> map_sum id fst (GetRuleForPacket mp cacheInit (Init 1) (tcpPkt iaS iaD))
           = Inr EmptyRulePtr"
  by code_simp

text \<open>
  With a single rule from an exact source to an exact destination and masks of length
  1, the loop of \<open>getRuleWithPrevMax\<close> over the ten slots of \<open>matched\<close> reads \<open>mask[1]\<close> and
  panics.
\<close>

lemma single_exact_rule_panics:
  "case RulesToMap [tcpRule ''Exact - Exact'' 1 (exactRule iaS) (exactRule iaD)] of
     None \<Rightarrow> False
   | Some mp \<Rightarrow>
       map_sum id fst (CachelessGetRuleForPacket mp (Init 1) (tcpPkt iaS iaD)) = Inl IndexOutOfRange
       \<and> map_sum id fst (GetRuleForPacket mp cacheInit (Init 1) (tcpPkt iaS iaD))
           = Inl IndexOutOfRange"
  by code_simp

text \<open>
  C2. The classification does not return the survivor of the greatest priority.
  \<open>getRuleWithPrevMax\<close> is to check the rules where the mask is true, as its comment
  says, but it leaves its loop at the first position whose mask is false, so a
  survivor behind a candidate that fails the L4 check is never looked at. With
  \<open>tcpThenUdp\<close> the L4-only group of a UDP packet holds rule 0 and rule 1, and the mask
  that \<open>matchL4Type\<close> writes is false for rule 0 and true for rule 1: rule 1, of priority
  5, is the one survivor. \<open>getRuleWithPrevMax\<close> hands back what it was given, and both
  classifiers return the default rule.
\<close>

theorem C2_later_survivor_skipped:
  "case RulesToMap tcpThenUdp of
     None \<Rightarrow> False
   | Some mp \<Rightarrow>
       l4OnlyRules (lookupCandidates mp iaS iaD 1) = [CrsPtr 0, CrsPtr 1]
       \<and> matchL4Type (RulesList mp) (maskLf (Init 2)) [CrsPtr 0, CrsPtr 1] 17 (extensions (Init 2))
           = Inr [False, True]
       \<and> survivors (RulesList mp) 17 (extensions (Init 2)) [CrsPtr 0, CrsPtr 1] = [CrsPtr 1]
       \<and> prioOf (RulesList mp) (CrsPtr 1) = 5
       \<and> getRuleWithPrevMax (RulesList mp) EmptyRulePtr [False, True] [CrsPtr 0, CrsPtr 1] (- 1)
           = Inr (- 1, EmptyRulePtr)
       \<and> map_sum id fst (CachelessGetRuleForPacket mp (Init 2) (udpPkt iaS iaD)) = Inr EmptyRulePtr
       \<and> map_sum id fst (GetRuleForPacket mp cacheInit (Init 2) (udpPkt iaS iaD))
           = Inr EmptyRulePtr"
  by code_simp

end
